theory Spec2Isabelle
  imports Complex_Main "HOL-Library.Word" "HOL-Library.Multiset"
begin

section \<open>Single-precision values\<close>

text \<open>
  The C++ type \<^verbatim>\<open>float\<close> is IEEE-754 binary32.  A value is a NaN, an infinity
  or a finite number; every finite binary32 value is a real number, carried here
  exactly.  Comparison, \<^verbatim>\<open>std::max\<close>, \<^verbatim>\<open>std::min\<close> and the arithmetic
  of special values follow IEEE-754.  Each arithmetic operation on finite
  operands returns the exact real result rounded once to binary32: to the
  nearest value, ties to the even significand, with gradual underflow and
  overflow to an infinity.  One thing is outside this model: the sign of zero
  (\<open>-0\<close> and \<open>+0\<close> compare equal in the code and are one value here).
\<close>

datatype f32 = NaN | NInf | Finite real | PInf

text \<open>\<^verbatim>\<open>a < b\<close>: false as soon as one side is a NaN.\<close>

fun flt :: "f32 \<Rightarrow> f32 \<Rightarrow> bool" where
  "flt NaN b = False"
| "flt a NaN = False"
| "flt (Finite x) (Finite y) = (x < y)"
| "flt NInf NInf = False"
| "flt NInf b = True"
| "flt a NInf = False"
| "flt PInf b = False"
| "flt a PInf = True"

text \<open>\<^verbatim>\<open>a > b\<close>, \<^verbatim>\<open>a >= b\<close> and \<^verbatim>\<open>a <= b\<close>.\<close>

definition fgt :: "f32 \<Rightarrow> f32 \<Rightarrow> bool" where
  "fgt a b = flt b a"

definition fge :: "f32 \<Rightarrow> f32 \<Rightarrow> bool" where
  "fge a b = (a \<noteq> NaN \<and> b \<noteq> NaN \<and> \<not> flt a b)"

definition fle :: "f32 \<Rightarrow> f32 \<Rightarrow> bool" where
  "fle a b = fge b a"

text \<open>
  \<^verbatim>\<open>std::max(a, b)\<close> is \<^verbatim>\<open>(a < b) ? b : a\<close> and \<^verbatim>\<open>std::min(a, b)\<close> is
  \<^verbatim>\<open>(b < a) ? b : a\<close>: with a NaN the first argument is returned.
\<close>

definition fmax :: "f32 \<Rightarrow> f32 \<Rightarrow> f32" where
  "fmax a b = (if flt a b then b else a)"

definition fmin :: "f32 \<Rightarrow> f32 \<Rightarrow> f32" where
  "fmin a b = (if flt b a then b else a)"

subsection \<open>Rounding to binary32\<close>

text \<open>
  The binade of a real \<open>x\<close>: the exponent \<open>e\<close> with \<open>2^e \<le> |x| < 2^(e+1)\<close>,
  kept between \<open>-126\<close> (the subnormal range and zero) and \<open>127\<close>.  It is found
  by going down from 127.
\<close>

function binade_from :: "real \<Rightarrow> int \<Rightarrow> int" where
  "binade_from x e =
     (if e \<le> - 126 then - 126
      else if 2 powi e \<le> \<bar>x\<bar> then e
      else binade_from x (e - 1))"
  by pat_completeness auto
termination
  by (relation "measure (\<lambda>(x, e). nat (e + 126))") auto

definition binade :: "real \<Rightarrow> int" where
  "binade x = binade_from x 127"

text \<open>The nearest integer, a tie going to the even one.\<close>

definition round_half_even :: "real \<Rightarrow> int" where
  "round_half_even y =
     (let f = \<lfloor>y\<rfloor>; r = y - of_int f
      in if r < 1 / 2 then f else if 1 / 2 < r then f + 1 else if even f then f else f + 1)"

text \<open>
  In the binade \<open>e\<close> the binary32 values are the multiples of \<open>2^(e-23)\<close> (24
  significant bits; \<open>2^-149\<close> in the subnormal range).  The exact result is
  rounded to the nearest multiple; a rounded magnitude of \<open>2^128\<close> or more is
  an overflow.
\<close>

definition round_f32 :: "real \<Rightarrow> f32" where
  "round_f32 x =
     (let q = 2 powi (binade x - 23);
          v = of_int (round_half_even (x / q)) * q
      in if 2 ^ 128 \<le> v then PInf else if v \<le> - (2 ^ 128) then NInf else Finite v)"

subsection \<open>Arithmetic\<close>

fun fneg :: "f32 \<Rightarrow> f32" where
  "fneg NaN = NaN"
| "fneg NInf = PInf"
| "fneg (Finite x) = Finite (- x)"
| "fneg PInf = NInf"

fun fadd :: "f32 \<Rightarrow> f32 \<Rightarrow> f32" where
  "fadd NaN b = NaN"
| "fadd a NaN = NaN"
| "fadd (Finite x) (Finite y) = round_f32 (x + y)"
| "fadd PInf NInf = NaN"
| "fadd NInf PInf = NaN"
| "fadd PInf b = PInf"
| "fadd a PInf = PInf"
| "fadd NInf b = NInf"
| "fadd a NInf = NInf"

text \<open>\<open>a - b\<close> is \<open>a + (-b)\<close>: negation is exact, so the rounding is the same.\<close>

definition fsub :: "f32 \<Rightarrow> f32 \<Rightarrow> f32" where
  "fsub a b = fadd a (fneg b)"

fun fmul :: "f32 \<Rightarrow> f32 \<Rightarrow> f32" where
  "fmul NaN b = NaN"
| "fmul a NaN = NaN"
| "fmul (Finite x) (Finite y) = round_f32 (x * y)"
| "fmul (Finite x) b =
     (if x = 0 then NaN else if (0 < x) = (b = PInf) then PInf else NInf)"
| "fmul a (Finite y) =
     (if y = 0 then NaN else if (0 < y) = (a = PInf) then PInf else NInf)"
| "fmul a b = (if a = b then PInf else NInf)"

text \<open>
  Division.  A finite non-zero value divided by zero is an infinity whose sign
  needs the sign of the zero; the divisor is taken as \<open>+0\<close>.  The code divides
  only by a value it has tested to be greater than zero.
\<close>

fun fdiv :: "f32 \<Rightarrow> f32 \<Rightarrow> f32" where
  "fdiv NaN b = NaN"
| "fdiv a NaN = NaN"
| "fdiv (Finite x) (Finite y) =
     (if y = 0 then (if x = 0 then NaN else if 0 < x then PInf else NInf)
      else round_f32 (x / y))"
| "fdiv (Finite x) b = Finite 0"
| "fdiv a (Finite y) = (if (a = PInf) = (0 \<le> y) then PInf else NInf)"
| "fdiv a b = NaN"

text \<open>
  \<^verbatim>\<open>static_cast<int>(f)\<close> truncates towards zero.  Where the truncated value
  is not an \<^verbatim>\<open>int\<close> (32 bits), and for a NaN or an infinity, C++ leaves the
  conversion undefined; the value the target machine produces there is the
  parameter \<open>undef\<close>.
\<close>

definition static_cast_int :: "(f32 \<Rightarrow> int) \<Rightarrow> f32 \<Rightarrow> int" where
  "static_cast_int undef f =
     (case f of
        Finite x \<Rightarrow>
          (let t = (if 0 \<le> x then \<lfloor>x\<rfloor> else \<lceil>x\<rceil>)
           in if - (2 ^ 31) \<le> t \<and> t \<le> 2 ^ 31 - 1 then t else undef f)
      | _ \<Rightarrow> undef f)"

text \<open>
  The binary32 value of a 32-bit pattern: sign bit, 8 exponent bits (bias 127),
  23 fraction bits.
\<close>

definition float_of_bits :: "nat \<Rightarrow> f32" where
  "float_of_bits n =
     (let s = (n div 2 ^ 31) mod 2;
          e = (n div 2 ^ 23) mod 256;
          m = n mod 2 ^ 23;
          sgn = (if s = 1 then - 1 else 1 :: real)
      in if e = 255 then (if m = 0 then (if s = 1 then NInf else PInf) else NaN)
         else if e = 0 then Finite (sgn * real m / 2 ^ 149)
         else if 150 \<le> e then Finite (sgn * real (2 ^ 23 + m) * 2 ^ (e - 150))
         else Finite (sgn * real (2 ^ 23 + m) / 2 ^ (150 - e)))"

text \<open>
  \<^verbatim>\<open>reinterpret_cast<const float*>(output.data())[k]\<close>: the four bytes at
  \<open>4k .. 4k+3\<close>, least significant first (the host is little-endian).
\<close>

definition load_float :: "8 word list \<Rightarrow> nat \<Rightarrow> f32" where
  "load_float buf k =
     float_of_bits (unat (buf ! (4 * k)) + 256 * unat (buf ! (4 * k + 1))
       + 65536 * unat (buf ! (4 * k + 2)) + 16777216 * unat (buf ! (4 * k + 3)))"

section \<open>Data model (hailo\_inference.hpp, hailo\_c\_api.h)\<close>

record Detection =
  x_min :: f32
  y_min :: f32
  x_max :: f32
  y_max :: f32
  confidence :: f32
  class_id :: int

record InputInfo =
  width :: int
  height :: int
  channels :: int
  frame_size :: nat

text \<open>
  The C structs of the boundary have the same field names as the C++ ones; their
  selectors carry the prefix \<open>c_\<close> here.
\<close>

record hailo_wrapper_detection_t =
  c_x_min :: f32
  c_y_min :: f32
  c_x_max :: f32
  c_y_max :: f32
  c_confidence :: f32
  c_class_id :: int

record hailo_input_info_t =
  c_width :: int
  c_height :: int
  c_channels :: int
  c_frame_size :: nat

text \<open>
  The private members \<^verbatim>\<open>m_confidence_threshold = 0.5f\<close> and
  \<^verbatim>\<open>m_nms_threshold = 0.45f\<close> have default initialisers and are assigned
  nowhere.  \<open>0.5f\<close> is exactly one half; \<open>0.45f\<close> is the binary32 value
  nearest to 0.45, bit pattern \<open>0x3EE66666\<close>, that is \<open>15099494 / 2^25\<close>.
\<close>

definition m_confidence_threshold :: f32 where
  "m_confidence_threshold = Finite (1 / 2)"

definition m_nms_threshold :: f32 where
  "m_nms_threshold = Finite (15099494 / 33554432)"

section \<open>Intersection over union (hailo\_inference.cpp, iou)\<close>

definition iou :: "Detection \<Rightarrow> Detection \<Rightarrow> f32" where
  "iou a b =
     (let x1 = fmax (x_min a) (x_min b);
          y1 = fmax (y_min a) (y_min b);
          x2 = fmin (x_max a) (x_max b);
          y2 = fmin (y_max a) (y_max b);
          intersection = fmul (fmax (Finite 0) (fsub x2 x1)) (fmax (Finite 0) (fsub y2 y1));
          area_a = fmul (fsub (x_max a) (x_min a)) (fsub (y_max a) (y_min a));
          area_b = fmul (fsub (x_max b) (x_min b)) (fsub (y_max b) (y_min b));
          union_area = fsub (fadd area_a area_b) intersection
      in if fgt union_area (Finite 0) then fdiv intersection union_area else Finite 0)"

section \<open>External collaborators\<close>

text \<open>
  Three things the code calls are not part of it and are parameters of the model,
  collected in one record:
  \<^item> \<^verbatim>\<open>std::sort\<close> with a comparator (its contract is \<open>std_sort_contract\<close>
    below);
  \<^item> the value of an undefined float-to-int conversion on the target machine;
  \<^item> the HailoRT calls made by \<^verbatim>\<open>detect\<close>.  The type \<open>'dev\<close> is the state
    behind \<^verbatim>\<open>m_vdevice\<close>, \<^verbatim>\<open>m_infer_model\<close>, \<^verbatim>\<open>m_configured_model\<close> and
    \<^verbatim>\<open>m_bindings\<close>; each call returns a status and the next state, and
    \<open>run\<close> (given the timeout in milliseconds) also returns the bytes the device
    wrote to the bound output buffer.
\<close>

type_synonym hailo_status = int

definition HAILO_SUCCESS :: hailo_status where
  "HAILO_SUCCESS = 0"

record 'dev platform =
  std_sort :: "(Detection \<Rightarrow> Detection \<Rightarrow> bool) \<Rightarrow> Detection list \<Rightarrow> Detection list"
  undefined_float_to_int :: "f32 \<Rightarrow> int"
  input_set_buffer :: "'dev \<Rightarrow> 8 word list \<Rightarrow> nat \<Rightarrow> hailo_status \<times> 'dev"
  output_set_buffer :: "'dev \<Rightarrow> nat \<Rightarrow> hailo_status \<times> 'dev"
  run :: "'dev \<Rightarrow> nat \<Rightarrow> hailo_status \<times> 8 word list \<times> 'dev"

text \<open>
  The contract of \<^verbatim>\<open>std::sort(first, last, cmp)\<close>: when \<open>cmp\<close> is a strict
  weak ordering of the elements, the result is a permutation of the input in
  which no element is \<open>cmp\<close>-before an earlier one.  Which order equivalent
  elements come out in is up to the library.
\<close>

definition strict_weak_on :: "'a set \<Rightarrow> ('a \<Rightarrow> 'a \<Rightarrow> bool) \<Rightarrow> bool" where
  "strict_weak_on A cmp =
     ((\<forall>a\<in>A. \<not> cmp a a) \<and>
      (\<forall>a\<in>A. \<forall>b\<in>A. \<forall>c\<in>A. cmp a b \<longrightarrow> cmp b c \<longrightarrow> cmp a c) \<and>
      (\<forall>a\<in>A. \<forall>b\<in>A. \<forall>c\<in>A.
         \<not> cmp a b \<longrightarrow> \<not> cmp b a \<longrightarrow> \<not> cmp b c \<longrightarrow> \<not> cmp c b \<longrightarrow>
         \<not> cmp a c \<and> \<not> cmp c a))"

definition std_sort_contract ::
  "((Detection \<Rightarrow> Detection \<Rightarrow> bool) \<Rightarrow> Detection list \<Rightarrow> Detection list) \<Rightarrow> bool" where
  "std_sort_contract srt =
     (\<forall>cmp xs. strict_weak_on (set xs) cmp \<longrightarrow>
        mset (srt cmp xs) = mset xs \<and>
        sorted_wrt (\<lambda>a b. \<not> cmp b a) (srt cmp xs))"

text \<open>
  A sort that meets the contract (insertion before the first element that the
  new one is \<open>cmp\<close>-before), used to run the model on concrete buffers.
\<close>

fun insert_by :: "('a \<Rightarrow> 'a \<Rightarrow> bool) \<Rightarrow> 'a \<Rightarrow> 'a list \<Rightarrow> 'a list" where
  "insert_by cmp x [] = [x]"
| "insert_by cmp x (y # ys) =
     (if cmp x y then x # y # ys else y # insert_by cmp x ys)"

fun insertion_sort :: "('a \<Rightarrow> 'a \<Rightarrow> bool) \<Rightarrow> 'a list \<Rightarrow> 'a list" where
  "insertion_sort cmp [] = []"
| "insertion_sort cmp (x # xs) = insert_by cmp x (insertion_sort cmp xs)"

section \<open>Output decoder and suppressor (hailo\_inference.cpp, parseDetections)\<close>

text \<open>
  \<^verbatim>\<open>const size_t detection_size = 6\<close>, and the record at float index
  \<open>offset\<close>: lines 156 to 162.
\<close>

definition detection_size :: nat where
  "detection_size = 6"

definition read_detection :: "(f32 \<Rightarrow> int) \<Rightarrow> 8 word list \<Rightarrow> nat \<Rightarrow> Detection" where
  "read_detection undef output offset =
     \<lparr>x_min = load_float output (offset + 0),
      y_min = load_float output (offset + 1),
      x_max = load_float output (offset + 2),
      y_max = load_float output (offset + 3),
      confidence = load_float output (offset + 4),
      class_id = static_cast_int undef (load_float output (offset + 5))\<rparr>"

text \<open>The decoding loop, lines 153 to 168; \<open>detections\<close> is the vector built so far.\<close>

function parse_loop ::
  "(f32 \<Rightarrow> int) \<Rightarrow> 8 word list \<Rightarrow> nat \<Rightarrow> nat \<Rightarrow> Detection list \<Rightarrow> Detection list" where
  "parse_loop undef output num_detections i detections =
     (if i < num_detections then
        (let offset = i * detection_size;
             det = read_detection undef output offset
         in parse_loop undef output num_detections (i + 1)
              (if fge (confidence det) m_confidence_threshold
               then detections @ [det] else detections))
      else detections)"
  by pat_completeness auto
termination
  by (relation "measure (\<lambda>(undef, output, n, i, detections). n - i)") auto

text \<open>The inner loop of the suppression, lines 184 to 190.\<close>

function nms_inner :: "Detection list \<Rightarrow> nat \<Rightarrow> nat \<Rightarrow> bool list \<Rightarrow> bool list" where
  "nms_inner detections i j suppressed =
     (if j < length detections then
        nms_inner detections i (j + 1)
          (if suppressed ! j then suppressed
           else if class_id (detections ! i) = class_id (detections ! j) \<and>
                   fgt (iou (detections ! i) (detections ! j)) m_nms_threshold
                then suppressed[j := True]
                else suppressed)
      else suppressed)"
  by pat_completeness auto
termination
  by (relation "measure (\<lambda>(detections, i, j, suppressed). length detections - j)") auto

text \<open>The outer loop, lines 179 to 191.\<close>

function nms_outer ::
  "Detection list \<Rightarrow> nat \<Rightarrow> bool list \<Rightarrow> Detection list \<Rightarrow> Detection list" where
  "nms_outer detections i suppressed nms_detections =
     (if i < length detections then
        (if suppressed ! i then nms_outer detections (i + 1) suppressed nms_detections
         else nms_outer detections (i + 1)
                (nms_inner detections i (i + 1) suppressed)
                (nms_detections @ [detections ! i]))
      else nms_detections)"
  by pat_completeness auto
termination
  by (relation "measure (\<lambda>(detections, i, suppressed, acc). length detections - i)") auto

definition parseDetections :: "'dev platform \<Rightarrow> 8 word list \<Rightarrow> Detection list" where
  "parseDetections P output =
     (let num_floats = length output div 4;
          num_detections = num_floats div detection_size;
          detections = parse_loop (undefined_float_to_int P) output num_detections 0 [];
          detections = std_sort P (\<lambda>a b. fgt (confidence a) (confidence b)) detections;
          suppressed = replicate (length detections) False
      in nms_outer detections 0 suppressed [])"

subsection \<open>The algorithm in the words of the specification\<close>

text \<open>
  Section 4.2: the records of the buffer, in order, and those kept by the
  confidence filter.  Section 4.3, step 2: emit the first detection, drop every
  later one of the same class whose IoU with it exceeds the threshold, go on
  with the rest.
\<close>

definition decoded_records :: "'dev platform \<Rightarrow> 8 word list \<Rightarrow> Detection list" where
  "decoded_records P output =
     map (\<lambda>i. read_detection (undefined_float_to_int P) output (i * 6))
       [0 ..< length output div 4 div 6]"

definition kept_records :: "'dev platform \<Rightarrow> 8 word list \<Rightarrow> Detection list" where
  "kept_records P output =
     filter (\<lambda>d. fge (confidence d) m_confidence_threshold) (decoded_records P output)"

definition suppresses :: "Detection \<Rightarrow> Detection \<Rightarrow> bool" where
  "suppresses d e = (class_id d = class_id e \<and> fgt (iou d e) m_nms_threshold)"

fun greedy_nms :: "Detection list \<Rightarrow> Detection list" where
  "greedy_nms [] = []"
| "greedy_nms (d # rest) = d # greedy_nms (filter (\<lambda>e. \<not> suppresses d e) rest)"

section \<open>Inference session (hailo\_inference.cpp)\<close>

text \<open>
  Every failure of the session is a \<^verbatim>\<open>std::runtime_error\<close> carrying a message;
  \<^verbatim>\<open>std::to_string\<close> writes a number in decimal.
\<close>

datatype exception = runtime_error string

fun what :: "exception \<Rightarrow> string" where
  "what (runtime_error msg) = msg"

function to_string :: "nat \<Rightarrow> string" where
  "to_string n =
     (if n < 10 then [''0123456789'' ! n]
      else to_string (n div 10) @ [''0123456789'' ! (n mod 10)])"
  by pat_completeness auto
termination
  by (relation "measure id") auto

definition to_string_int :: "int \<Rightarrow> string" where
  "to_string_int i = (if i < 0 then ''-'' @ to_string (nat (- i)) else to_string (nat i))"

text \<open>
  The members of \<^verbatim>\<open>HailoInference\<close>.  \<open>m_hailort\<close> stands for the four HailoRT
  members; the two thresholds are the constants above.  A session is any value
  of this record: \<^verbatim>\<open>create\<close> and \<^verbatim>\<open>hailo_create\<close>, which fill it from the
  device and the model file, are not modelled.
\<close>

record 'dev HailoInference =
  m_hailort :: 'dev
  m_input_info :: InputInfo
  m_output_size :: nat

definition getInputInfo :: "'dev HailoInference \<Rightarrow> InputInfo" where
  "getInputInfo s = m_input_info s"

text \<open>
  The output buffer is a vector of \<open>m_output_size\<close> zero bytes; the device
  writes into it and cannot change its size.
\<close>

definition device_write :: "8 word list \<Rightarrow> 8 word list \<Rightarrow> 8 word list" where
  "device_write written buffer =
     take (length buffer) written @ drop (length written) buffer"

text \<open>
  \<^verbatim>\<open>detect\<close>, lines 77 to 102: the size gate, the two bindings and the run.  The
  result is the exception thrown or the output buffer after the run, with the
  session as the calls left it.
\<close>

definition run_inference ::
  "'dev platform \<Rightarrow> 'dev HailoInference \<Rightarrow> 8 word list \<Rightarrow> nat \<Rightarrow>
     (exception + 8 word list) \<times> 'dev HailoInference" where
  "run_inference P s input_data input_size =
     (if input_size \<noteq> frame_size (m_input_info s) then
        (Inl (runtime_error (''Input size mismatch: expected '' @
                to_string (frame_size (m_input_info s)) @ '', got '' @ to_string input_size)),
         s)
      else
        (case input_set_buffer P (m_hailort s) input_data input_size of
           (status, dev1) \<Rightarrow>
             if status \<noteq> HAILO_SUCCESS then
               (Inl (runtime_error ''Failed to set input buffer''), s\<lparr>m_hailort := dev1\<rparr>)
             else
               (let output_buffer = replicate (m_output_size s) (0 :: 8 word) in
                case output_set_buffer P dev1 (m_output_size s) of
                  (status, dev2) \<Rightarrow>
                    if status \<noteq> HAILO_SUCCESS then
                      (Inl (runtime_error ''Failed to set output buffer''),
                       s\<lparr>m_hailort := dev2\<rparr>)
                    else
                      (case run P dev2 10000 of
                         (status, written, dev3) \<Rightarrow>
                           if status \<noteq> HAILO_SUCCESS then
                             (Inl (runtime_error (''Inference failed: '' @ to_string_int status)),
                              s\<lparr>m_hailort := dev3\<rparr>)
                           else
                             (Inr (device_write written output_buffer),
                              s\<lparr>m_hailort := dev3\<rparr>)))))"

text \<open>\<^verbatim>\<open>detect\<close>: the above, then line 105.\<close>

definition detect ::
  "'dev platform \<Rightarrow> 'dev HailoInference \<Rightarrow> 8 word list \<Rightarrow> nat \<Rightarrow>
     (exception + Detection list) \<times> 'dev HailoInference" where
  "detect P s input_data input_size =
     (case run_inference P s input_data input_size of
        (Inl e, s') \<Rightarrow> (Inl e, s')
      | (Inr output_buffer, s') \<Rightarrow> (Inr (parseDetections P output_buffer), s'))"

text \<open>
  The counting loop of \<^verbatim>\<open>detectPeople\<close>, lines 111 to 117.  The counter is an
  \<^verbatim>\<open>int\<close> in the code and an unbounded integer here: it would overflow only
  on more than \<open>2^31 - 1\<close> detections.
\<close>

fun count_people :: "Detection list \<Rightarrow> int \<Rightarrow> int" where
  "count_people [] cnt = cnt"
| "count_people (det # rest) cnt =
     count_people rest
       (if class_id det = 0 \<and> fge (confidence det) m_confidence_threshold
        then cnt + 1 else cnt)"

definition detectPeople ::
  "'dev platform \<Rightarrow> 'dev HailoInference \<Rightarrow> 8 word list \<Rightarrow> nat \<Rightarrow>
     (exception + int) \<times> 'dev HailoInference" where
  "detectPeople P s input_data input_size =
     (case detect P s input_data input_size of
        (Inl e, s') \<Rightarrow> (Inl e, s')
      | (Inr detections, s') \<Rightarrow> (Inr (count_people detections 0), s'))"

section \<open>Boundary (hailo\_c\_api.cpp)\<close>

text \<open>
  A handle is an address; \<open>0\<close> is the null pointer.  The calling thread sees the
  engines that are alive, by address, and its own \<^verbatim>\<open>g_last_error\<close>.  A result
  \<open>None\<close> is undefined behaviour: a handle that is neither null nor the
  address of a live engine, or a write outside the caller's array.
\<close>

record 'dev process =
  heap :: "nat \<rightharpoonup> 'dev HailoInference"
  g_last_error :: string

definition set_error :: "string \<Rightarrow> 'dev process \<Rightarrow> 'dev process" where
  "set_error msg w = w\<lparr>g_last_error := msg\<rparr>"

definition hailo_get_last_error :: "'dev process \<Rightarrow> string" where
  "hailo_get_last_error w = g_last_error w"

definition hailo_destroy :: "'dev process \<Rightarrow> nat \<Rightarrow> 'dev process option" where
  "hailo_destroy w h =
     (if h \<noteq> 0 then
        (case heap w h of
           None \<Rightarrow> None
         | Some engine \<Rightarrow> Some (w\<lparr>heap := (heap w)(h := None)\<rparr>))
      else Some w)"

definition hailo_get_input_info ::
  "'dev process \<Rightarrow> nat \<Rightarrow> (hailo_input_info_t \<times> 'dev process) option" where
  "hailo_get_input_info w h =
     (let info = \<lparr>c_width = 0, c_height = 0, c_channels = 0, c_frame_size = 0\<rparr> in
      if h = 0 then Some (info, set_error ''Invalid handle'' w)
      else
        (case heap w h of
           None \<Rightarrow> None
         | Some engine \<Rightarrow>
             (let cpp_info = getInputInfo engine in
              Some (info\<lparr>c_width := width cpp_info,
                          c_height := height cpp_info,
                          c_channels := channels cpp_info,
                          c_frame_size := frame_size cpp_info\<rparr>, w))))"

definition hailo_detect_people ::
  "'dev platform \<Rightarrow> 'dev process \<Rightarrow> nat \<Rightarrow> 8 word list \<Rightarrow> nat \<Rightarrow>
     (int \<times> 'dev process) option" where
  "hailo_detect_people P w h input_data input_size =
     (if h = 0 then Some (- 1, set_error ''Invalid handle'' w)
      else
        (case heap w h of
           None \<Rightarrow> None
         | Some engine \<Rightarrow>
             (case detectPeople P engine input_data input_size of
                (Inr cnt, engine') \<Rightarrow> Some (cnt, w\<lparr>heap := (heap w)(h \<mapsto> engine')\<rparr>)
              | (Inl e, engine') \<Rightarrow>
                  Some (- 1, set_error (what e) (w\<lparr>heap := (heap w)(h \<mapsto> engine')\<rparr>)))))"

text \<open>
  The copying loop of \<^verbatim>\<open>hailo_detect\<close>, lines 86 to 97, over the caller's array
  \<open>detections\<close>; an index outside the array is a write outside it.
\<close>

fun copy_loop ::
  "Detection list \<Rightarrow> int \<Rightarrow> int \<Rightarrow> hailo_wrapper_detection_t list \<Rightarrow>
     (int \<times> hailo_wrapper_detection_t list) option" where
  "copy_loop [] cnt max_detections detections = Some (cnt, detections)"
| "copy_loop (det # rest) cnt max_detections detections =
     (if cnt \<ge> max_detections then Some (cnt, detections)
      else if cnt < 0 \<or> int (length detections) \<le> cnt then None
      else copy_loop rest (cnt + 1) max_detections
             (detections[nat cnt := (detections ! nat cnt)
                \<lparr>c_x_min := x_min det,
                 c_y_min := y_min det,
                 c_x_max := x_max det,
                 c_y_max := y_max det,
                 c_confidence := confidence det,
                 c_class_id := class_id det\<rparr>]))"

definition hailo_detect ::
  "'dev platform \<Rightarrow> 'dev process \<Rightarrow> nat \<Rightarrow> 8 word list \<Rightarrow> nat \<Rightarrow>
     hailo_wrapper_detection_t list \<Rightarrow> int \<Rightarrow>
     (int \<times> hailo_wrapper_detection_t list \<times> 'dev process) option" where
  "hailo_detect P w h input_data input_size detections max_detections =
     (if h = 0 then Some (- 1, detections, set_error ''Invalid handle'' w)
      else
        (case heap w h of
           None \<Rightarrow> None
         | Some engine \<Rightarrow>
             (case detect P engine input_data input_size of
                (Inr cpp_detections, engine') \<Rightarrow>
                  (case copy_loop cpp_detections 0 max_detections detections of
                     None \<Rightarrow> None
                   | Some (cnt, detections') \<Rightarrow>
                       Some (cnt, detections', w\<lparr>heap := (heap w)(h \<mapsto> engine')\<rparr>))
              | (Inl e, engine') \<Rightarrow>
                  Some (- 1, detections,
                        set_error (what e) (w\<lparr>heap := (heap w)(h \<mapsto> engine')\<rparr>)))))"

subsection \<open>The six fields copied by the boundary\<close>

definition to_c :: "Detection \<Rightarrow> hailo_wrapper_detection_t" where
  "to_c det =
     \<lparr>c_x_min = x_min det, c_y_min = y_min det, c_x_max = x_max det, c_y_max = y_max det,
      c_confidence = confidence det, c_class_id = class_id det\<rparr>"

section \<open>A concrete buffer, platform and session\<close>

text \<open>
  The three records of the specification's example, as the 72 bytes of a raw
  output buffer.  The confidences are the binary32 values nearest to 0.9, 0.8
  and 0.7: \<open>0x3F666666\<close>, \<open>0x3F4CCCCD\<close> and \<open>0x3F333333\<close>.
\<close>

definition example_buffer :: "8 word list" where
  "example_buffer =
     [0x00, 0x00, 0x00, 0x00,  0x00, 0x00, 0x00, 0x00,  0x00, 0x00, 0x20, 0x41,
      0x00, 0x00, 0x20, 0x41,  0x66, 0x66, 0x66, 0x3F,  0x00, 0x00, 0x00, 0x00,
      0x00, 0x00, 0x80, 0x3F,  0x00, 0x00, 0x80, 0x3F,  0x00, 0x00, 0x10, 0x41,
      0x00, 0x00, 0x10, 0x41,  0xCD, 0xCC, 0x4C, 0x3F,  0x00, 0x00, 0x00, 0x00,
      0x00, 0x00, 0x48, 0x42,  0x00, 0x00, 0x48, 0x42,  0x00, 0x00, 0x70, 0x42,
      0x00, 0x00, 0x70, 0x42,  0x33, 0x33, 0x33, 0x3F,  0x00, 0x00, 0x80, 0x3F]"

definition box :: "real \<Rightarrow> real \<Rightarrow> real \<Rightarrow> real \<Rightarrow> real \<Rightarrow> int \<Rightarrow> Detection" where
  "box x0 y0 x1 y1 c k =
     \<lparr>x_min = Finite x0, y_min = Finite y0, x_max = Finite x1, y_max = Finite y1,
      confidence = Finite c, class_id = k\<rparr>"

text \<open>
  Section 4.3, step 3, on finite coordinates: the intersection area is the
  product of the two overlaps cut at zero, the union is the sum of the areas
  less the intersection, and the IoU is 0 when the union is not positive.
\<close>

definition iou_real ::
  "real \<Rightarrow> real \<Rightarrow> real \<Rightarrow> real \<Rightarrow> real \<Rightarrow> real \<Rightarrow> real \<Rightarrow> real \<Rightarrow> real" where
  "iou_real ax0 ay0 ax1 ay1 bx0 by0 bx1 by1 =
     (let inter = max 0 (min ax1 bx1 - max ax0 bx0) * max 0 (min ay1 by1 - max ay0 by0);
          union = (ax1 - ax0) * (ay1 - ay0) + (bx1 - bx0) * (by1 - by0) - inter
      in if union \<le> 0 then 0 else inter / union)"

text \<open>
  The geometric IoU of two detections is this formula on their corners; it
  exists when the eight corners are finite numbers.  A pixel corner is an
  integer of magnitude at most 1024.
\<close>

fun is_finite :: "f32 \<Rightarrow> bool" where
  "is_finite (Finite x) = True"
| "is_finite a = False"

fun real_of :: "f32 \<Rightarrow> real" where
  "real_of (Finite x) = x"
| "real_of a = 0"

definition geometric_iou :: "Detection \<Rightarrow> Detection \<Rightarrow> real option" where
  "geometric_iou a b =
     (if is_finite (x_min a) \<and> is_finite (y_min a) \<and> is_finite (x_max a) \<and>
         is_finite (y_max a) \<and> is_finite (x_min b) \<and> is_finite (y_min b) \<and>
         is_finite (x_max b) \<and> is_finite (y_max b)
      then Some (iou_real (real_of (x_min a)) (real_of (y_min a)) (real_of (x_max a))
                   (real_of (y_max a)) (real_of (x_min b)) (real_of (y_min b))
                   (real_of (x_max b)) (real_of (y_max b)))
      else None)"

fun pixel :: "f32 \<Rightarrow> bool" where
  "pixel (Finite x) = (x = of_int \<lfloor>x\<rfloor> \<and> \<bar>x\<bar> \<le> 1024)"
| "pixel a = False"

definition pixel_box :: "Detection \<Rightarrow> bool" where
  "pixel_box d = (pixel (x_min d) \<and> pixel (y_min d) \<and> pixel (x_max d) \<and> pixel (y_max d))"

definition record_1 :: Detection where
  "record_1 = box 0 0 10 10 (15099494 / 16777216) 0"

definition record_2 :: Detection where
  "record_2 = box 1 1 9 9 (13421773 / 16777216) 0"

definition record_3 :: Detection where
  "record_3 = box 50 50 60 60 (11744051 / 16777216) 1"

text \<open>
  A second buffer: the first record, a record of confidence 0.25 and a distant
  box of the first record's class.  A third: two boxes with the same corners and
  different classes, followed by three bytes that do not make up a float.
\<close>

definition record_low :: Detection where
  "record_low = box 1 1 9 9 (1 / 4) 0"

definition record_4 :: Detection where
  "record_4 = box 50 50 60 60 (11744051 / 16777216) 0"

definition record_5 :: Detection where
  "record_5 = box 0 0 10 10 (13421773 / 16777216) 1"

definition example_buffer_2 :: "8 word list" where
  "example_buffer_2 =
     [0x00, 0x00, 0x00, 0x00,  0x00, 0x00, 0x00, 0x00,  0x00, 0x00, 0x20, 0x41,
      0x00, 0x00, 0x20, 0x41,  0x66, 0x66, 0x66, 0x3F,  0x00, 0x00, 0x00, 0x00,
      0x00, 0x00, 0x80, 0x3F,  0x00, 0x00, 0x80, 0x3F,  0x00, 0x00, 0x10, 0x41,
      0x00, 0x00, 0x10, 0x41,  0x00, 0x00, 0x80, 0x3E,  0x00, 0x00, 0x00, 0x00,
      0x00, 0x00, 0x48, 0x42,  0x00, 0x00, 0x48, 0x42,  0x00, 0x00, 0x70, 0x42,
      0x00, 0x00, 0x70, 0x42,  0x33, 0x33, 0x33, 0x3F,  0x00, 0x00, 0x00, 0x00]"

definition example_buffer_3 :: "8 word list" where
  "example_buffer_3 =
     [0x00, 0x00, 0x00, 0x00,  0x00, 0x00, 0x00, 0x00,  0x00, 0x00, 0x20, 0x41,
      0x00, 0x00, 0x20, 0x41,  0x66, 0x66, 0x66, 0x3F,  0x00, 0x00, 0x00, 0x00,
      0x00, 0x00, 0x00, 0x00,  0x00, 0x00, 0x00, 0x00,  0x00, 0x00, 0x20, 0x41,
      0x00, 0x00, 0x20, 0x41,  0xCD, 0xCC, 0x4C, 0x3F,  0x00, 0x00, 0x80, 0x3F,
      0xFF, 0xFF, 0xFF]"

text \<open>
  A fourth buffer: a box of 4201 by 4199 and, inside it, a box of 3000 by 2646
  of the same class.  The area of the first, 17639999, is not a binary32 value.
\<close>

definition record_6 :: Detection where
  "record_6 = box 0 0 4201 4199 (15099494 / 16777216) 0"

definition record_7 :: Detection where
  "record_7 = box 0 0 3000 2646 (13421773 / 16777216) 0"

definition example_buffer_4 :: "8 word list" where
  "example_buffer_4 =
     [0x00, 0x00, 0x00, 0x00,  0x00, 0x00, 0x00, 0x00,  0x00, 0x48, 0x83, 0x45,
      0x00, 0x38, 0x83, 0x45,  0x66, 0x66, 0x66, 0x3F,  0x00, 0x00, 0x00, 0x00,
      0x00, 0x00, 0x00, 0x00,  0x00, 0x00, 0x00, 0x00,  0x00, 0x80, 0x3B, 0x45,
      0x00, 0x60, 0x25, 0x45,  0xCD, 0xCC, 0x4C, 0x3F,  0x00, 0x00, 0x00, 0x00]"

text \<open>
  A simulated device: its state is the bytes it writes on a run, and every call
  succeeds.  The sort is \<open>insertion_sort\<close>; an undefined conversion gives 0.
  The session \<open>sim_session buf\<close> expects frames of 4 bytes and its device
  answers with \<open>buf\<close>.
\<close>

definition sim_platform :: "(8 word list) platform" where
  "sim_platform =
     \<lparr>std_sort = insertion_sort,
      undefined_float_to_int = (\<lambda>f. 0),
      input_set_buffer = (\<lambda>dev input_data input_size. (HAILO_SUCCESS, dev)),
      output_set_buffer = (\<lambda>dev output_size. (HAILO_SUCCESS, dev)),
      run = (\<lambda>dev timeout_ms. (HAILO_SUCCESS, dev, dev))\<rparr>"

definition sim_session :: "8 word list \<Rightarrow> (8 word list) HailoInference" where
  "sim_session buf =
     \<lparr>m_hailort = buf,
      m_input_info = \<lparr>width = 2, height = 2, channels = 1, frame_size = 4\<rparr>,
      m_output_size = length buf\<rparr>"

definition sim_process :: "(8 word list) process" where
  "sim_process = \<lparr>heap = [1 \<mapsto> sim_session example_buffer], g_last_error = ''''\<rparr>"

definition empty_array :: "hailo_wrapper_detection_t list" where
  "empty_array = replicate 4 (to_c (box 0 0 0 0 0 0))"

subsection \<open>Auxiliary definition for the proofs\<close>

text \<open>
  The detections from position \<open>i\<close> on that are not marked in \<open>suppressed\<close>:
  what the outer loop has still to look at.
\<close>

definition alive :: "Detection list \<Rightarrow> bool list \<Rightarrow> nat \<Rightarrow> Detection list" where
  "alive ds suppressed i = map (nth ds) (filter (\<lambda>k. \<not> suppressed ! k) [i ..< length ds])"


declare parse_loop.simps [simp del]
declare nms_inner.simps [simp del]
declare nms_outer.simps [simp del]
declare to_string.simps [simp del]
declare binade_from.simps [simp del]

section \<open>Properties of the rounding\<close>

lemma binade_from_range: "- 126 \<le> binade_from x e \<and> binade_from x e \<le> max e (- 126)"
proof (induction x e rule: binade_from.induct)
  case (1 x e)
  show ?case
  proof (cases "e \<le> - 126")
    case True
    then show ?thesis by (subst (1 2) binade_from.simps) simp
  next
    case False
    show ?thesis
    proof (cases "2 powi e \<le> \<bar>x\<bar>")
      case True
      with False show ?thesis by (subst (1 2) binade_from.simps) simp
    next
      case b: False
      have "binade_from x e = binade_from x (e - 1)"
        using False b by (subst binade_from.simps) simp
      with "1" [OF False b] show ?thesis by auto
    qed
  qed
qed

lemma binade_from_lower: "binade_from x e = - 126 \<or> 2 powi (binade_from x e) \<le> \<bar>x\<bar>"
proof (induction x e rule: binade_from.induct)
  case (1 x e)
  show ?case
  proof (cases "e \<le> - 126")
    case True
    then show ?thesis by (subst binade_from.simps) simp
  next
    case False
    show ?thesis
    proof (cases "2 powi e \<le> \<bar>x\<bar>")
      case True
      have "binade_from x e = e"
        using False True by (subst binade_from.simps) simp
      with True show ?thesis by simp
    next
      case b: False
      have "binade_from x e = binade_from x (e - 1)"
        using False b by (subst binade_from.simps) simp
      with "1" [OF False b] show ?thesis by simp
    qed
  qed
qed

lemma binade_from_upper: "binade_from x e < j \<Longrightarrow> j \<le> e \<Longrightarrow> \<bar>x\<bar> < 2 powi j"
proof (induction x e rule: binade_from.induct)
  case (1 x e)
  show ?case
  proof (cases "e \<le> - 126")
    case True
    then have "binade_from x e = - 126" by (subst binade_from.simps) simp
    with "1.prems" True show ?thesis by simp
  next
    case False
    show ?thesis
    proof (cases "2 powi e \<le> \<bar>x\<bar>")
      case True
      have "binade_from x e = e"
        using False True by (subst binade_from.simps) simp
      with "1.prems" show ?thesis by simp
    next
      case b: False
      have eq: "binade_from x e = binade_from x (e - 1)"
        using False b by (subst binade_from.simps) simp
      show ?thesis
      proof (cases "j = e")
        case True
        with b show ?thesis by simp
      next
        case False
        with "1.prems" have "j \<le> e - 1" by simp
        with "1.IH" [OF \<open>\<not> e \<le> - 126\<close> b] "1.prems"(1) eq show ?thesis by simp
      qed
    qed
  qed
qed

lemma binade_range: "- 126 \<le> binade x" "binade x \<le> 127"
  using binade_from_range [of x 127] by (simp_all add: binade_def)

lemma binade_lower: "binade x = - 126 \<or> 2 powi (binade x) \<le> \<bar>x\<bar>"
  unfolding binade_def by (rule binade_from_lower)

lemma binade_upper: "binade x < j \<Longrightarrow> j \<le> 127 \<Longrightarrow> \<bar>x\<bar> < 2 powi j"
  unfolding binade_def by (rule binade_from_upper)

lemma round_half_even_of_int: "round_half_even (of_int n) = n"
  by (simp add: round_half_even_def)

lemma round_half_even_ge_floor: "\<lfloor>y\<rfloor> \<le> round_half_even y"
  by (simp add: round_half_even_def Let_def)

lemma round_half_even_nonneg: "0 \<le> y \<Longrightarrow> 0 \<le> round_half_even y"
  using round_half_even_ge_floor [of y] by (smt (verit) zero_le_floor)

lemma round_half_even_up:
  assumes "of_int k + 1 / 2 < y"
  shows "k + 1 \<le> round_half_even y"
proof (cases "k + 1 \<le> \<lfloor>y\<rfloor>")
  case True
  then show ?thesis using round_half_even_ge_floor [of y] by simp
next
  case False
  moreover have "k \<le> \<lfloor>y\<rfloor>" using assms by (simp add: le_floor_iff)
  ultimately have "\<lfloor>y\<rfloor> = k" by simp
  then show ?thesis
    using assms by (simp add: round_half_even_def Let_def)
qed

lemma round_f32_not_NaN: "round_f32 x \<noteq> NaN"
  by (simp add: round_f32_def Let_def)

lemma round_f32_nonneg:
  assumes "0 \<le> x"
  shows "round_f32 x = PInf \<or> (\<exists>y. 0 \<le> y \<and> round_f32 x = Finite y)"
proof -
  let ?q = "2 powi (binade x - 23) :: real"
  have q: "0 < ?q" by simp
  then have "0 \<le> x / ?q" using assms by simp
  then have "0 \<le> round_half_even (x / ?q)" by (rule round_half_even_nonneg)
  then have "0 \<le> of_int (round_half_even (x / ?q)) * ?q" using q by simp
  then show ?thesis
    by (auto simp: round_f32_def Let_def)
qed

lemma round_f32_exact:
  assumes "x / 2 powi (binade x - 23) = of_int m" "\<bar>x\<bar> < 2 ^ 128"
  shows "round_f32 x = Finite x"
proof -
  let ?q = "2 powi (binade x - 23) :: real"
  have q: "?q \<noteq> 0" by simp
  have "of_int (round_half_even (x / ?q)) * ?q = x / ?q * ?q"
    using assms(1) by (simp add: round_half_even_of_int)
  also have "\<dots> = x" using q by simp
  finally have v: "of_int (round_half_even (x / ?q)) * ?q = x" .
  show ?thesis
    using assms(2) unfolding round_f32_def Let_def v by auto
qed

lemma round_f32_int:
  assumes "\<bar>n\<bar> \<le> 2 ^ 24"
  shows "round_f32 (of_int n) = Finite (of_int n)"
proof -
  let ?x = "of_int n :: real"
  let ?e = "binade ?x"
  have ex: "\<exists>m :: int. ?x / 2 powi (?e - 23) = of_int m"
  proof (cases "?e \<le> 23")
    case True
    then have "(2 :: real) powi (?e - 23) = 1 / 2 ^ nat (23 - ?e)"
      by (simp add: power_int_def field_simps)
    then have "?x / 2 powi (?e - 23) = of_int (n * 2 ^ nat (23 - ?e))" by simp
    then show ?thesis by blast
  next
    case False
    then have "?e \<noteq> - 126" by simp
    then have "2 powi ?e \<le> \<bar>?x\<bar>" using binade_lower [of ?x] by simp
    moreover have "\<bar>?x\<bar> \<le> 2 ^ 24" using assms by (metis of_int_abs of_int_le_numeral_power_cancel_iff)
    ultimately have "(2 :: real) powi ?e \<le> 2 powi 24" by simp
    then have "?e \<le> 24" by (rule power_int_le_imp_le_exp [rotated]) simp_all
    with False have e: "?e = 24" by simp
    with \<open>2 powi ?e \<le> \<bar>?x\<bar>\<close> have "2 ^ 24 \<le> \<bar>?x\<bar>" by simp
    then have "2 ^ 24 \<le> \<bar>n\<bar>" by (metis of_int_abs numeral_power_le_of_int_cancel_iff)
    with assms have "\<bar>n\<bar> = 2 ^ 24" by simp
    then have "n = 2 ^ 24 \<or> n = - (2 ^ 24)" by linarith
    then have "?x / 2 powi (?e - 23) = of_int (n div 2)"
      unfolding e by auto
    then show ?thesis by blast
  qed
  have "\<bar>?x\<bar> \<le> 2 ^ 24" using assms by (metis of_int_abs of_int_le_numeral_power_cancel_iff)
  then have "\<bar>?x\<bar> < 2 ^ 128" by simp
  with ex show ?thesis using round_f32_exact by blast
qed

lemma pow2_shift: "(2 :: real) powi (e - 23) = 2 powi e / 2 ^ 23"
  by (simp add: power_int_diff)

lemma round_f32_above_threshold:
  assumes "45 / 100 + 1 / (20 * 2 ^ 23) \<le> x"
  shows "flt m_nms_threshold (round_f32 x)"
proof -
  let ?e = "binade x"
  let ?q = "2 powi (?e - 23) :: real"
  let ?n = "round_half_even (x / ?q)"
  let ?v = "of_int ?n * ?q"
  have x: "1 / 4 < x" "0 < x" using assms by simp_all
  have q: "0 < ?q" by simp
  have "Finite (15099494 / 33554432) = m_nms_threshold" by (simp add: m_nms_threshold_def)
  have v: "15099494 / 33554432 < ?v"
  proof (cases "?e \<le> - 3")
    case True
    then have "\<bar>x\<bar> < 2 powi (- 2)"
      by (intro binade_upper) simp_all
    with x show ?thesis by (simp add: power_int_minus field_simps)
  next
    case False
    show ?thesis
    proof (cases "?e = - 2")
      case True
      then have qv: "?q = 1 / 2 ^ 25" by (simp add: power_int_minus field_simps)
      have "of_int 15099494 + 1 / 2 < x / ?q"
        using assms unfolding qv by simp
      then have "15099494 + 1 \<le> ?n" by (rule round_half_even_up)
      then have "(15099495 :: real) \<le> of_int ?n" by linarith
      then have "15099495 * ?q \<le> ?v" using q by simp
      then show ?thesis unfolding qv by simp
    next
      case e: False
      with False have ge: "- 1 \<le> ?e" by simp
      then have "?e \<noteq> - 126" by simp
      then have lo: "2 powi ?e \<le> x" using binade_lower [of x] x by simp
      have "(2 :: real) powi ?e = 2 powi 23 * ?q"
        by (simp add: pow2_shift)
      then have "2 powi 23 * ?q \<le> x" using lo by simp
      then have "2 powi 23 \<le> x / ?q" using q by (simp add: pos_le_divide_eq)
      then have "of_int (2 ^ 23) \<le> x / ?q" by simp
      then have "2 ^ 23 \<le> \<lfloor>x / ?q\<rfloor>" by (simp only: le_floor_iff)
      then have "2 ^ 23 \<le> ?n" using round_half_even_ge_floor [of "x / ?q"] by linarith
      then have a: "(2 ^ 23 :: real) \<le> of_int ?n" by (metis numeral_power_le_of_int_cancel_iff)
      have b: "2 ^ 23 * ?q \<le> of_int ?n * ?q"
        using a q by (intro mult_right_mono) simp_all
      have c: "2 ^ 23 * ?q = 2 powi ?e" by (simp add: pow2_shift)
      have "(2 :: real) powi (- 1) \<le> 2 powi ?e"
        using ge by (intro power_int_increasing) simp_all
      then have d: "1 / 2 \<le> 2 ^ 23 * ?q" unfolding c by (simp add: power_int_minus)
      have "1 / 2 \<le> ?v" using d b by (rule order_trans)
      then show ?thesis by simp
    qed
  qed
  show ?thesis
    using v unfolding round_f32_def Let_def m_nms_threshold_def
    by (auto simp: not_le)
qed

section \<open>Properties of the single-precision operations\<close>

lemma flt_irrefl: "\<not> flt a a"
  by (cases a) auto

lemma flt_trans: "flt a b \<Longrightarrow> flt b c \<Longrightarrow> flt a c"
  by (cases a; cases b; cases c) auto

lemma flt_asym: "flt a b \<Longrightarrow> \<not> flt b a"
  by (cases a; cases b) auto

lemma flt_total: "a \<noteq> NaN \<Longrightarrow> b \<noteq> NaN \<Longrightarrow> \<not> flt a b \<Longrightarrow> \<not> flt b a \<Longrightarrow> a = b"
  by (cases a; cases b) auto

lemma flt_not_NaN: "flt a b \<Longrightarrow> a \<noteq> NaN \<and> b \<noteq> NaN"
  by (cases a; cases b) auto

lemma fmax_commute: "a \<noteq> NaN \<Longrightarrow> b \<noteq> NaN \<Longrightarrow> fmax a b = fmax b a"
  by (cases a; cases b) (auto simp: fmax_def)

lemma fmin_commute: "a \<noteq> NaN \<Longrightarrow> b \<noteq> NaN \<Longrightarrow> fmin a b = fmin b a"
  by (cases a; cases b) (auto simp: fmin_def)

lemma fadd_commute: "fadd a b = fadd b a"
  by (cases a; cases b) (auto simp: add.commute)

lemma fsub_NaN [simp]: "fsub NaN b = NaN" "fsub a NaN = NaN"
  by (cases a; simp add: fsub_def)+

lemma fmul_NaN [simp]: "fmul a NaN = NaN"
  by (cases a) auto

lemma fadd_NaN [simp]: "fadd a NaN = NaN"
  by (cases a) auto

lemma fmax_zero_cases: "fmax (Finite 0) t = PInf \<or> (\<exists>x. 0 \<le> x \<and> fmax (Finite 0) t = Finite x)"
  by (cases t) (auto simp: fmax_def)

lemma fmul_nonneg:
  assumes "u = PInf \<or> (\<exists>x. 0 \<le> x \<and> u = Finite x)" "v = PInf \<or> (\<exists>x. 0 \<le> x \<and> v = Finite x)"
  shows "fmul u v = NaN \<or> fmul u v = PInf \<or> (\<exists>x. 0 \<le> x \<and> fmul u v = Finite x)"
proof (cases u; cases v)
  fix x y assume "u = Finite x" "v = Finite y"
  moreover from this assms have "0 \<le> x * y" by simp
  ultimately show ?thesis using round_f32_nonneg [of "x * y"] by auto
qed (use assms in auto)

lemma fdiv_safe:
  assumes "i = NaN \<or> i = PInf \<or> (\<exists>x. 0 \<le> x \<and> i = Finite x)"
    and "fgt (fsub s i) (Finite 0)"
  shows "fdiv i (fsub s i) \<noteq> NaN"
proof (cases i; cases s)
  fix x y assume f: "i = Finite x" "s = Finite y"
  then have pos: "flt (Finite 0) (round_f32 (y - x))"
    using assms(2) by (simp add: fgt_def fsub_def)
  show ?thesis
  proof (cases "round_f32 (y - x)")
    case (Finite u)
    with pos have "u \<noteq> 0" by auto
    with f Finite show ?thesis by (simp add: fsub_def round_f32_not_NaN)
  qed (use f pos round_f32_not_NaN [of "y - x"] in \<open>auto simp: fsub_def\<close>)
qed (use assms in \<open>auto simp: fgt_def fsub_def\<close>)

lemma iou_not_NaN: "iou a b \<noteq> NaN"
proof -
  let ?i = "fmul (fmax (Finite 0) (fsub (fmin (x_max a) (x_max b)) (fmax (x_min a) (x_min b))))
                 (fmax (Finite 0) (fsub (fmin (y_max a) (y_max b)) (fmax (y_min a) (y_min b))))"
  have "?i = NaN \<or> ?i = PInf \<or> (\<exists>x. 0 \<le> x \<and> ?i = Finite x)"
    by (rule fmul_nonneg) (rule fmax_zero_cases)+
  then show ?thesis
    unfolding iou_def Let_def using fdiv_safe by auto
qed

lemma area_NaN:
  "x_min a = NaN \<or> y_min a = NaN \<or> x_max a = NaN \<or> y_max a = NaN \<Longrightarrow>
   fmul (fsub (x_max a) (x_min a)) (fsub (y_max a) (y_min a)) = NaN"
  by auto

lemma iou_sym: "iou a b = iou b a"
proof (cases "x_min a = NaN \<or> y_min a = NaN \<or> x_max a = NaN \<or> y_max a = NaN \<or>
              x_min b = NaN \<or> y_min b = NaN \<or> x_max b = NaN \<or> y_max b = NaN")
  case True
  then have "fmul (fsub (x_max a) (x_min a)) (fsub (y_max a) (y_min a)) = NaN \<or>
             fmul (fsub (x_max b) (x_min b)) (fsub (y_max b) (y_min b)) = NaN"
    using area_NaN by blast
  then have "\<And>i. fadd (fmul (fsub (x_max a) (x_min a)) (fsub (y_max a) (y_min a)))
               (fmul (fsub (x_max b) (x_min b)) (fsub (y_max b) (y_min b))) = NaN"
    by auto
  then show ?thesis
    by (simp add: iou_def Let_def fadd_commute fgt_def)
next
  case False
  then show ?thesis
    by (simp add: iou_def Let_def fadd_commute fmax_commute [of "x_min a"] fmax_commute [of "y_min a"]
        fmin_commute [of "x_max a"] fmin_commute [of "y_max a"])
qed

section \<open>The intersection over union of pixel boxes\<close>

lemma pixel_int: "pixel c \<Longrightarrow> \<exists>n :: int. c = Finite (of_int n) \<and> \<bar>n\<bar> \<le> 1024"
proof (cases c)
  case (Finite x)
  assume "pixel c"
  with Finite have x: "x = of_int \<lfloor>x\<rfloor>" "\<bar>x\<bar> \<le> 1024" by simp_all
  then have "\<bar>of_int \<lfloor>x\<rfloor> :: real\<bar> \<le> 1024" by simp
  then have "\<bar>\<lfloor>x\<rfloor>\<bar> \<le> 1024" by linarith
  with Finite x(1) show ?thesis by blast
qed simp_all

lemma fmax_int: "fmax (Finite (of_int n)) (Finite (of_int m)) = Finite (of_int (max n m))"
  by (simp add: fmax_def max_def)

lemma fmin_int: "fmin (Finite (of_int n)) (Finite (of_int m)) = Finite (of_int (min n m))"
  by (simp add: fmin_def min_def)

lemma fmax_0_int: "fmax (Finite 0) (Finite (of_int n)) = Finite (of_int (max 0 n))"
  by (simp add: fmax_def max_def)

lemma fsub_int:
  "\<bar>n - m\<bar> \<le> 2 ^ 24 \<Longrightarrow> fsub (Finite (of_int n)) (Finite (of_int m)) = Finite (of_int (n - m))"
  using round_f32_int [of "n - m"] by (simp add: fsub_def)

lemma fadd_int:
  "\<bar>n + m\<bar> \<le> 2 ^ 24 \<Longrightarrow> fadd (Finite (of_int n)) (Finite (of_int m)) = Finite (of_int (n + m))"
  using round_f32_int [of "n + m"] by simp

lemma fmul_int:
  "\<bar>n * m\<bar> \<le> 2 ^ 24 \<Longrightarrow> fmul (Finite (of_int n)) (Finite (of_int m)) = Finite (of_int (n * m))"
  using round_f32_int [of "n * m"] by simp

lemma abs_mult_bound:
  fixes n m :: int
  assumes "\<bar>n\<bar> \<le> 2048" "\<bar>m\<bar> \<le> 2048"
  shows "\<bar>n * m\<bar> \<le> 2 ^ 22"
proof -
  have "\<bar>n\<bar> * \<bar>m\<bar> \<le> 2048 * 2048"
    using assms by (intro mult_mono) simp_all
  then show ?thesis by (simp add: abs_mult)
qed

lemma iou_int_corners:
  fixes a0 a1 a2 a3 b0 b1 b2 b3 :: int
  assumes a: "x_min a = Finite (of_int a0)" "y_min a = Finite (of_int a1)"
             "x_max a = Finite (of_int a2)" "y_max a = Finite (of_int a3)"
    and b: "x_min b = Finite (of_int b0)" "y_min b = Finite (of_int b1)"
           "x_max b = Finite (of_int b2)" "y_max b = Finite (of_int b3)"
    and bd: "\<bar>a0\<bar> \<le> 1024" "\<bar>a1\<bar> \<le> 1024" "\<bar>a2\<bar> \<le> 1024" "\<bar>a3\<bar> \<le> 1024"
            "\<bar>b0\<bar> \<le> 1024" "\<bar>b1\<bar> \<le> 1024" "\<bar>b2\<bar> \<le> 1024" "\<bar>b3\<bar> \<le> 1024"
    and I_def: "I = max 0 (min a2 b2 - max a0 b0) * max 0 (min a3 b3 - max a1 b1)"
    and U_def: "U = (a2 - a0) * (a3 - a1) + (b2 - b0) * (b3 - b1) - I"
  shows "iou a b = (if 0 < U then round_f32 (of_int I / of_int U) else Finite 0)"
    and "0 \<le> I" and "U \<le> 2 ^ 23"
proof -
  let ?dx = "min a2 b2 - max a0 b0" and ?dy = "min a3 b3 - max a1 b1"
  let ?A = "(a2 - a0) * (a3 - a1)" and ?B = "(b2 - b0) * (b3 - b1)"
  have dx: "\<bar>?dx\<bar> \<le> 2048" using bd(1,3,5,7) by (simp add: min_def max_def) linarith
  have dy: "\<bar>?dy\<bar> \<le> 2048" using bd(2,4,6,8) by (simp add: min_def max_def) linarith
  have mx: "\<bar>max 0 ?dx\<bar> \<le> 2048" using dx by linarith
  have my: "\<bar>max 0 ?dy\<bar> \<le> 2048" using dy by linarith
  have I22: "\<bar>I\<bar> \<le> 2 ^ 22" unfolding I_def using mx my by (rule abs_mult_bound)
  show I0: "0 \<le> I" unfolding I_def by simp
  have wa: "\<bar>a2 - a0\<bar> \<le> 2048" and ha: "\<bar>a3 - a1\<bar> \<le> 2048"
    and wb: "\<bar>b2 - b0\<bar> \<le> 2048" and hb: "\<bar>b3 - b1\<bar> \<le> 2048" using bd by linarith+
  have A22: "\<bar>?A\<bar> \<le> 2 ^ 22" using wa ha by (rule abs_mult_bound)
  have B22: "\<bar>?B\<bar> \<le> 2 ^ 22" using wb hb by (rule abs_mult_bound)
  have S: "\<bar>?A + ?B\<bar> \<le> 2 ^ 24" using A22 B22 by simp
  have U24: "\<bar>?A + ?B - I\<bar> \<le> 2 ^ 24" using A22 B22 I22 by simp
  show "U \<le> 2 ^ 23" unfolding U_def using A22 B22 I0 by simp
  have x1: "fmax (x_min a) (x_min b) = Finite (of_int (max a0 b0))"
    and y1: "fmax (y_min a) (y_min b) = Finite (of_int (max a1 b1))"
    and x2: "fmin (x_max a) (x_max b) = Finite (of_int (min a2 b2))"
    and y2: "fmin (y_max a) (y_max b) = Finite (of_int (min a3 b3))"
    unfolding a b by (rule fmax_int fmin_int)+
  have sx: "fsub (Finite (of_int (min a2 b2))) (Finite (of_int (max a0 b0))) = Finite (of_int ?dx)"
    using dx by (intro fsub_int) simp
  have sy: "fsub (Finite (of_int (min a3 b3))) (Finite (of_int (max a1 b1))) = Finite (of_int ?dy)"
    using dy by (intro fsub_int) simp
  have inter: "fmul (Finite (of_int (max 0 ?dx))) (Finite (of_int (max 0 ?dy))) = Finite (of_int I)"
    unfolding I_def using I22 [unfolded I_def] by (intro fmul_int) simp
  have swa: "fsub (x_max a) (x_min a) = Finite (of_int (a2 - a0))"
    unfolding a using wa by (intro fsub_int) simp
  have sha: "fsub (y_max a) (y_min a) = Finite (of_int (a3 - a1))"
    unfolding a using ha by (intro fsub_int) simp
  have swb: "fsub (x_max b) (x_min b) = Finite (of_int (b2 - b0))"
    unfolding b using wb by (intro fsub_int) simp
  have shb: "fsub (y_max b) (y_min b) = Finite (of_int (b3 - b1))"
    unfolding b using hb by (intro fsub_int) simp
  have area_a: "fmul (Finite (of_int (a2 - a0))) (Finite (of_int (a3 - a1))) = Finite (of_int ?A)"
    using A22 by (intro fmul_int) simp
  have area_b: "fmul (Finite (of_int (b2 - b0))) (Finite (of_int (b3 - b1))) = Finite (of_int ?B)"
    using B22 by (intro fmul_int) simp
  have sum: "fadd (Finite (of_int ?A)) (Finite (of_int ?B)) = Finite (of_int (?A + ?B))"
    using S by (rule fadd_int)
  have un: "fsub (Finite (of_int (?A + ?B))) (Finite (of_int I)) = Finite (of_int U)"
    unfolding U_def using U24 by (rule fsub_int)
  show "iou a b = (if 0 < U then round_f32 (of_int I / of_int U) else Finite 0)"
    unfolding iou_def Let_def x1 y1 x2 y2 sx sy fmax_0_int inter swa sha swb shb area_a area_b sum un
    by (simp add: fgt_def)
qed

lemma geometric_iou_int_corners:
  fixes a0 a1 a2 a3 b0 b1 b2 b3 :: int
  assumes a: "x_min a = Finite (of_int a0)" "y_min a = Finite (of_int a1)"
             "x_max a = Finite (of_int a2)" "y_max a = Finite (of_int a3)"
    and b: "x_min b = Finite (of_int b0)" "y_min b = Finite (of_int b1)"
           "x_max b = Finite (of_int b2)" "y_max b = Finite (of_int b3)"
    and I_def: "I = max 0 (min a2 b2 - max a0 b0) * max 0 (min a3 b3 - max a1 b1)"
    and U_def: "U = (a2 - a0) * (a3 - a1) + (b2 - b0) * (b3 - b1) - I"
  shows "geometric_iou a b = Some (if U \<le> 0 then 0 else of_int I / of_int U)"
proof -
  have I: "max 0 (min (of_int a2) (of_int b2) - max (of_int a0) (of_int b0)) *
           max 0 (min (of_int a3) (of_int b3) - max (of_int a1) (of_int b1)) = (of_int I :: real)"
    unfolding I_def by (simp add: of_int_max of_int_min)
  have U: "(of_int a2 - of_int a0) * (of_int a3 - of_int a1) +
           (of_int b2 - of_int b0) * (of_int b3 - of_int b1) - of_int I = (of_int U :: real)"
    unfolding U_def by simp
  show ?thesis
    unfolding geometric_iou_def iou_real_def Let_def a b by (simp add: I U)
qed

lemma ratio_above:
  fixes I U :: int
  assumes "0 < U" "U \<le> 2 ^ 23" "45 / 100 < (of_int I / of_int U :: real)"
  shows "45 / 100 + 1 / (20 * 2 ^ 23) \<le> (of_int I / of_int U :: real)"
proof -
  have "45 * (of_int U :: real) < 100 * of_int I"
    using assms(1,3) by (simp add: pos_less_divide_eq)
  then have "(of_int (45 * U) :: real) < of_int (100 * I)" by simp
  then have "45 * U < 100 * I" by (simp only: of_int_less_iff)
  then have "9 * U + 1 \<le> 20 * I" by simp
  then have "(of_int (9 * U + 1) :: real) \<le> of_int (20 * I)" by (simp only: of_int_le_iff)
  then have 1: "9 * (of_int U :: real) + 1 \<le> 20 * of_int I" by simp
  have u: "(0 :: real) < of_int U" "(of_int U :: real) \<le> 2 ^ 23"
    using assms(1,2) by (simp, metis of_int_le_numeral_power_cancel_iff)
  have "45 / 100 + 1 / (20 * 2 ^ 23) \<le> 9 / 20 + 1 / (20 * of_int U :: real)"
    using u by (simp add: frac_le)
  also have "\<dots> = (9 * of_int U + 1) / (20 * of_int U)"
    using u by (simp add: field_simps)
  also have "\<dots> \<le> 20 * of_int I / (20 * of_int U)"
    using 1 u by (intro divide_right_mono) simp_all
  also have "\<dots> = of_int I / of_int U" by simp
  finally show ?thesis .
qed

lemma pixel_kept_geometric:
  assumes "pixel_box a" "pixel_box b" "\<not> fgt (iou a b) m_nms_threshold"
  shows "\<exists>q. geometric_iou a b = Some q \<and> q \<le> 45 / 100"
proof -
  obtain a0 a1 a2 a3 :: int where
    a: "x_min a = Finite (of_int a0)" "y_min a = Finite (of_int a1)"
       "x_max a = Finite (of_int a2)" "y_max a = Finite (of_int a3)"
    and abd: "\<bar>a0\<bar> \<le> 1024" "\<bar>a1\<bar> \<le> 1024" "\<bar>a2\<bar> \<le> 1024" "\<bar>a3\<bar> \<le> 1024"
    using assms(1) unfolding pixel_box_def by (metis pixel_int)
  obtain b0 b1 b2 b3 :: int where
    b: "x_min b = Finite (of_int b0)" "y_min b = Finite (of_int b1)"
       "x_max b = Finite (of_int b2)" "y_max b = Finite (of_int b3)"
    and bbd: "\<bar>b0\<bar> \<le> 1024" "\<bar>b1\<bar> \<le> 1024" "\<bar>b2\<bar> \<le> 1024" "\<bar>b3\<bar> \<le> 1024"
    using assms(2) unfolding pixel_box_def by (metis pixel_int)
  define I where "I = max 0 (min a2 b2 - max a0 b0) * max 0 (min a3 b3 - max a1 b1)"
  define U where "U = (a2 - a0) * (a3 - a1) + (b2 - b0) * (b3 - b1) - I"
  have c: "iou a b = (if 0 < U then round_f32 (of_int I / of_int U) else Finite 0)"
    and U23: "U \<le> 2 ^ 23"
    using iou_int_corners [OF a b abd bbd I_def U_def] by blast+
  have g: "geometric_iou a b = Some (if U \<le> 0 then 0 else of_int I / of_int U)"
    by (rule geometric_iou_int_corners [OF a b I_def U_def])
  have "(if U \<le> 0 then 0 else of_int I / of_int U :: real) \<le> 45 / 100"
  proof (cases "U \<le> 0")
    case True
    then show ?thesis by simp
  next
    case False
    then have pos: "0 < U" by simp
    have "\<not> 45 / 100 < (of_int I / of_int U :: real)"
    proof
      assume "45 / 100 < (of_int I / of_int U :: real)"
      then have "45 / 100 + 1 / (20 * 2 ^ 23) \<le> (of_int I / of_int U :: real)"
        by (rule ratio_above [OF pos U23])
      then have "flt m_nms_threshold (round_f32 (of_int I / of_int U))"
        by (rule round_f32_above_threshold)
      with c pos assms(3) show False by (simp add: fgt_def)
    qed
    with False show ?thesis by simp
  qed
  with g show ?thesis by simp
qed

section \<open>The insertion sort meets the contract of the library sort\<close>

lemma insert_by_mset: "mset (insert_by cmp x ys) = add_mset x (mset ys)"
  by (induction ys) auto

lemma insertion_sort_mset: "mset (insertion_sort cmp xs) = mset xs"
  by (induction xs) (auto simp: insert_by_mset)

lemma insert_by_set: "set (insert_by cmp x ys) = insert x (set ys)"
  by (induction ys) auto

lemma insertion_sort_set: "set (insertion_sort cmp xs) = set xs"
  by (induction xs) (auto simp: insert_by_set)

lemma insert_by_sorted:
  assumes "strict_weak_on A cmp" "x \<in> A" "set ys \<subseteq> A" "sorted_wrt (\<lambda>a b. \<not> cmp b a) ys"
  shows "sorted_wrt (\<lambda>a b. \<not> cmp b a) (insert_by cmp x ys)"
  using assms(3,4)
proof (induction ys)
  case Nil
  then show ?case by simp
next
  case (Cons y ys)
  have irr: "\<And>a. a \<in> A \<Longrightarrow> \<not> cmp a a"
    and tr: "\<And>a b c. a \<in> A \<Longrightarrow> b \<in> A \<Longrightarrow> c \<in> A \<Longrightarrow> cmp a b \<Longrightarrow> cmp b c \<Longrightarrow> cmp a c"
    using assms(1) unfolding strict_weak_on_def by blast+
  show ?case
  proof (cases "cmp x y")
    case True
    have "\<not> cmp z x" if "z \<in> set (y # ys)" for z
    proof
      assume "cmp z x"
      with True have "cmp z y" using tr that Cons.prems(1) assms(2) by (meson list.set_intros(1) subsetD)
      moreover have "\<not> cmp z y" using that Cons.prems(2) irr Cons.prems(1) by auto
      ultimately show False by simp
    qed
    with True Cons.prems show ?thesis by auto
  next
    case False
    with Cons show ?thesis by (auto simp: insert_by_set)
  qed
qed

lemma insertion_sort_sorted:
  "strict_weak_on A cmp \<Longrightarrow> set xs \<subseteq> A \<Longrightarrow> sorted_wrt (\<lambda>a b. \<not> cmp b a) (insertion_sort cmp xs)"
  by (induction xs) (auto intro!: insert_by_sorted simp: insertion_sort_set)

lemma insertion_sort_contract: "std_sort_contract insertion_sort"
  unfolding std_sort_contract_def
  using insertion_sort_mset insertion_sort_sorted by blast

section \<open>The decoding loop\<close>

lemma parse_loop_eq:
  "parse_loop undef buf n i acc =
     acc @ filter (\<lambda>d. fge (confidence d) m_confidence_threshold)
             (map (\<lambda>k. read_detection undef buf (k * 6)) [i ..< n])"
proof (induction undef buf n i acc rule: parse_loop.induct)
  case (1 undef buf n i acc)
  show ?case
  proof (cases "i < n")
    case True
    then show ?thesis
      using "1" [OF True refl refl] unfolding detection_size_def
      by (subst parse_loop.simps) (simp add: upt_conv_Cons Let_def detection_size_def)
  next
    case False
    then show ?thesis by (subst parse_loop.simps) simp
  qed
qed

lemma parse_loop_kept:
  "parse_loop (undefined_float_to_int P) output (length output div 4 div 6) 0 [] = kept_records P output"
  by (simp add: parse_loop_eq kept_records_def decoded_records_def)

text \<open>
  Every float the loop reads lies inside the buffer: record \<open>i\<close> is read only for
  \<open>i < num_detections\<close>, and its sixth float ends before the buffer does.
\<close>

lemma parse_reads_in_range:
  assumes "i < length buf div 4 div detection_size" "k < detection_size"
  shows "4 * (i * detection_size + k) + 3 < length buf"
proof -
  have "Suc i \<le> length buf div 4 div 6"
    using assms(1) by (simp add: detection_size_def)
  then have "Suc i * 6 \<le> length buf div 4"
    by (simp only: less_eq_div_iff_mult_less_eq zero_less_numeral)
  then have "Suc i * 6 * 4 \<le> length buf"
    by (simp only: less_eq_div_iff_mult_less_eq zero_less_numeral)
  then show ?thesis
    using assms(2) by (simp add: detection_size_def)
qed

lemma kept_conf: "d \<in> set (kept_records P output) \<Longrightarrow> fge (confidence d) m_confidence_threshold"
  by (simp add: kept_records_def)

lemma cmp_strict_weak:
  assumes "\<forall>d\<in>A. confidence d \<noteq> NaN"
  shows "strict_weak_on A (\<lambda>a b. fgt (confidence a) (confidence b))"
  unfolding strict_weak_on_def fgt_def
proof (intro conjI ballI impI)
  fix a b c assume "a \<in> A" "b \<in> A" "c \<in> A"
  then have n: "confidence a \<noteq> NaN" "confidence b \<noteq> NaN" "confidence c \<noteq> NaN"
    using assms by auto
  {
    assume "\<not> flt (confidence b) (confidence a)" "\<not> flt (confidence a) (confidence b)"
      "\<not> flt (confidence c) (confidence b)" "\<not> flt (confidence b) (confidence c)"
    then have "confidence a = confidence b" "confidence b = confidence c"
      using n flt_total by blast+
    then show "\<not> flt (confidence c) (confidence a)" "\<not> flt (confidence a) (confidence c)"
      by (simp_all add: flt_irrefl)
  }
qed (auto simp: flt_irrefl intro: flt_trans)

section \<open>The suppression loops compute the greedy suppression\<close>

lemma nms_inner_length: "length (nms_inner ds i j sp) = length sp"
proof (induction ds i j sp rule: nms_inner.induct)
  case (1 ds i j sp)
  show ?case
  proof (cases "j < length ds")
    case True
    then show ?thesis
      using "1" [OF True] by (subst nms_inner.simps) simp
  next
    case False
    then show ?thesis by (subst nms_inner.simps) simp
  qed
qed

lemma nms_inner_nth:
  "length sp = length ds \<Longrightarrow> k < length ds \<Longrightarrow>
   nms_inner ds i j sp ! k = (sp ! k \<or> (j \<le> k \<and> suppresses (ds ! i) (ds ! k)))"
proof (induction ds i j sp rule: nms_inner.induct)
  case (1 ds i j sp)
  show ?case
  proof (cases "j < length ds")
    case True
    let ?sp' = "(if sp ! j then sp
           else if class_id (ds ! i) = class_id (ds ! j) \<and>
                   fgt (iou (ds ! i) (ds ! j)) m_nms_threshold
                then sp[j := True]
                else sp)"
    have len: "length ?sp' = length ds" using "1.prems" by simp
    have step: "nms_inner ds i j sp = nms_inner ds i (j + 1) ?sp'"
      using True by (subst nms_inner.simps) simp
    have ih: "nms_inner ds i (j + 1) ?sp' ! k =
              (?sp' ! k \<or> (j + 1 \<le> k \<and> suppresses (ds ! i) (ds ! k)))"
      using "1.IH" [OF True len "1.prems"(2)] .
    have "?sp' ! k = (sp ! k \<or> (k = j \<and> suppresses (ds ! i) (ds ! k)))"
      using "1.prems" True by (auto simp: suppresses_def nth_list_update)
    with step ih show ?thesis by (auto simp: le_eq_less_or_eq)
  next
    case False
    with "1.prems" show ?thesis by (subst nms_inner.simps) simp
  qed
qed

lemma alive_inner:
  assumes "length sp = length ds"
  shows "alive ds (nms_inner ds i (Suc i) sp) (Suc i) =
         filter (\<lambda>e. \<not> suppresses (ds ! i) e) (alive ds sp (Suc i))"
proof -
  have "filter (\<lambda>k. \<not> nms_inner ds i (Suc i) sp ! k) [Suc i ..< length ds] =
        filter (\<lambda>k. \<not> sp ! k \<and> \<not> suppresses (ds ! i) (ds ! k)) [Suc i ..< length ds]"
    by (rule filter_cong) (auto simp: nms_inner_nth [OF assms])
  then show ?thesis
    by (simp add: alive_def filter_map comp_def)
qed

lemma nms_outer_eq:
  "length sp = length ds \<Longrightarrow> nms_outer ds i sp acc = acc @ greedy_nms (alive ds sp i)"
proof (induction ds i sp acc rule: nms_outer.induct)
  case (1 ds i sp acc)
  show ?case
  proof (cases "i < length ds")
    case False
    then show ?thesis by (subst nms_outer.simps) (simp add: alive_def)
  next
    case True
    show ?thesis
    proof (cases "sp ! i")
      case s1: True
      have "alive ds sp i = alive ds sp (i + 1)"
        using True s1 by (simp add: alive_def upt_conv_Cons)
      then show ?thesis
        using "1.IH"(1) [OF True s1 "1.prems"] True s1 by (subst nms_outer.simps) simp
    next
      case s0: False
      have a: "alive ds sp i = ds ! i # alive ds sp (i + 1)"
        using True s0 by (simp add: alive_def upt_conv_Cons)
      have len: "length (nms_inner ds i (i + 1) sp) = length ds"
        using "1.prems" by (simp add: nms_inner_length)
      show ?thesis
        using "1.IH"(2) [OF True s0 len] True s0
        by (subst nms_outer.simps) (simp add: a alive_inner [OF "1.prems"])
    qed
  qed
qed

lemma alive_all: "alive ds (replicate (length ds) False) 0 = ds"
proof -
  have "filter (\<lambda>k. \<not> replicate (length ds) False ! k) [0 ..< length ds] = [0 ..< length ds]"
    by (rule filter_True) simp
  then show ?thesis
    by (simp add: alive_def map_nth)
qed

lemma greedy_set: "set (greedy_nms xs) \<subseteq> set xs"
proof (induction xs rule: greedy_nms.induct)
  case 1
  then show ?case by simp
next
  case (2 d rest)
  have "set (filter (\<lambda>e. \<not> suppresses d e) rest) \<subseteq> set rest" by simp
  with 2 show ?case
    unfolding greedy_nms.simps list.set by blast
qed

lemma greedy_sorted_wrt: "sorted_wrt R xs \<Longrightarrow> sorted_wrt R (greedy_nms xs)"
proof (induction xs rule: greedy_nms.induct)
  case 1
  then show ?case by simp
next
  case (2 d rest)
  then have "sorted_wrt R (greedy_nms (filter (\<lambda>e. \<not> suppresses d e) rest))"
    by (simp add: sorted_wrt_filter)
  moreover have "\<forall>e\<in>set (greedy_nms (filter (\<lambda>e. \<not> suppresses d e) rest)). R d e"
    using "2.prems" greedy_set [of "filter (\<lambda>e. \<not> suppresses d e) rest"] by auto
  ultimately show ?case by simp
qed

lemma greedy_no_suppress: "sorted_wrt (\<lambda>a b. \<not> suppresses a b) (greedy_nms xs)"
proof (induction xs rule: greedy_nms.induct)
  case 1
  then show ?case by simp
next
  case (2 d rest)
  have "\<forall>e\<in>set (greedy_nms (filter (\<lambda>e. \<not> suppresses d e) rest)). \<not> suppresses d e"
    using greedy_set [of "filter (\<lambda>e. \<not> suppresses d e) rest"] by auto
  with 2 show ?case
    unfolding greedy_nms.simps sorted_wrt.simps by blast
qed

section \<open>Properties of the post-processing\<close>

lemma parseDetections_greedy:
  "parseDetections P buf =
     greedy_nms (std_sort P (\<lambda>a b. fgt (confidence a) (confidence b)) (kept_records P buf))"
  by (simp add: parseDetections_def Let_def detection_size_def parse_loop_kept nms_outer_eq
      alive_all)

lemma kept_not_NaN: "\<forall>d\<in>set (kept_records P buf). confidence d \<noteq> NaN"
  by (auto simp: kept_records_def fge_def)

lemma sorted_kept:
  assumes "std_sort_contract (std_sort P)"
  shows "mset (std_sort P (\<lambda>a b. fgt (confidence a) (confidence b)) (kept_records P buf)) =
           mset (kept_records P buf)"
    and "sorted_wrt (\<lambda>a b. \<not> fgt (confidence b) (confidence a))
           (std_sort P (\<lambda>a b. fgt (confidence a) (confidence b)) (kept_records P buf))"
  using assms cmp_strict_weak [OF kept_not_NaN, of P buf]
  unfolding std_sort_contract_def by blast+

lemma parseDetections_subset:
  assumes "std_sort_contract (std_sort P)"
  shows "set (parseDetections P buf) \<subseteq> set (kept_records P buf)"
proof -
  have "set (std_sort P (\<lambda>a b. fgt (confidence a) (confidence b)) (kept_records P buf)) =
        set (kept_records P buf)"
    using sorted_kept(1) [OF assms] by (rule mset_eq_setD)
  then show ?thesis
    using greedy_set parseDetections_greedy by metis
qed

lemma parseDetections_conf:
  assumes "std_sort_contract (std_sort P)" "d \<in> set (parseDetections P buf)"
  shows "fge (confidence d) m_confidence_threshold"
  using parseDetections_subset [OF assms(1)] assms(2) kept_conf by blast

lemma parseDetections_sorted:
  assumes "std_sort_contract (std_sort P)"
  shows "sorted_wrt (\<lambda>a b. fge (confidence a) (confidence b)) (parseDetections P buf)"
proof -
  have "sorted_wrt (\<lambda>a b. \<not> fgt (confidence b) (confidence a)) (parseDetections P buf)"
    unfolding parseDetections_greedy
    by (rule greedy_sorted_wrt) (rule sorted_kept(2) [OF assms])
  moreover have "\<forall>d\<in>set (parseDetections P buf). confidence d \<noteq> NaN"
    using parseDetections_conf [OF assms] by (auto simp: fge_def)
  ultimately show ?thesis
    by (rule_tac sorted_wrt_mono_rel [rotated]) (auto simp: fge_def fgt_def)
qed

lemma not_suppresses_iou:
  assumes "\<not> suppresses a b" "class_id a = class_id b"
  shows "fle (iou a b) m_nms_threshold" "fle (iou b a) m_nms_threshold"
  using assms iou_not_NaN [of a b]
  by (auto simp: suppresses_def fle_def fge_def fgt_def m_nms_threshold_def iou_sym [of b a])

lemma parseDetections_nms:
  assumes "i < length (parseDetections P buf)" "j < length (parseDetections P buf)" "i \<noteq> j"
    and "class_id (parseDetections P buf ! i) = class_id (parseDetections P buf ! j)"
  shows "fle (iou (parseDetections P buf ! i) (parseDetections P buf ! j)) m_nms_threshold"
proof -
  let ?out = "parseDetections P buf"
  have s: "sorted_wrt (\<lambda>a b. \<not> suppresses a b) ?out"
    unfolding parseDetections_greedy by (rule greedy_no_suppress)
  show ?thesis
  proof (cases "i < j")
    case True
    then have "\<not> suppresses (?out ! i) (?out ! j)"
      using s assms(2) by (simp add: sorted_wrt_iff_nth_less)
    then show ?thesis using assms(4) not_suppresses_iou(1) by blast
  next
    case False
    then have "j < i" using assms(3) by simp
    then have "\<not> suppresses (?out ! j) (?out ! i)"
      using s assms(1) by (simp add: sorted_wrt_iff_nth_less)
    then show ?thesis using assms(4) not_suppresses_iou(2) by metis
  qed
qed

section \<open>The example buffers, evaluated\<close>

lemma length_example_buffer: "length example_buffer = 72"
  by (simp add: example_buffer_def)

lemma upt3: "[0 ..< 3] = [0, 1, 2 :: nat]"
  by (simp add: upt_conv_Cons numeral_3_eq_3)

lemma example_decoded: "decoded_records P example_buffer = [record_1, record_2, record_3]"
  by (simp add: decoded_records_def length_example_buffer upt3)
     (simp add: read_detection_def load_float_def example_buffer_def float_of_bits_def Let_def
      record_1_def record_2_def record_3_def box_def static_cast_int_def)

lemma sim_contract: "std_sort_contract (std_sort sim_platform)"
  by (simp add: sim_platform_def insertion_sort_contract)

lemma sorted_unique:
  assumes "sorted_wrt cmp ys" "mset xs = mset ys" "sorted_wrt (\<lambda>a b. \<not> cmp b a) xs"
  shows "xs = ys"
  using assms
proof (induction ys arbitrary: xs)
  case Nil
  then show ?case by simp
next
  case (Cons y ys)
  then obtain x xs' where xs: "xs = x # xs'" by (cases xs) auto
  have "x = y"
  proof (rule ccontr)
    assume ne: "x \<noteq> y"
    have "y \<in> set xs" using Cons.prems(2) by (metis list.set_intros(1) set_mset_mset)
    with xs ne have "y \<in> set xs'" by simp
    with Cons.prems(3) xs have 1: "\<not> cmp y x" by simp
    have "x \<in> set (y # ys)" using Cons.prems(2) xs by (metis list.set_intros(1) set_mset_mset)
    with ne have "x \<in> set ys" by simp
    with Cons.prems(1) have "cmp y x" by simp
    with 1 show False by simp
  qed
  moreover from this have "xs' = ys"
    using Cons.IH [of xs'] Cons.prems xs by simp
  ultimately show ?case using xs by simp
qed

lemmas round_f32_eval = round_f32_def binade_def binade_from.simps round_half_even_def

lemma iou_1_2: "iou record_1 record_2 = Finite (10737418 / 16777216)"
  by (simp add: iou_def record_1_def record_2_def box_def fmax_def fmin_def fsub_def fgt_def Let_def
      round_f32_eval)

lemma example_sorted:
  assumes "std_sort_contract (std_sort P)" "kept_records P buf = [record_1, record_2, record_3]"
  shows "std_sort P (\<lambda>a b. fgt (confidence a) (confidence b)) (kept_records P buf) =
         [record_1, record_2, record_3]"
proof (rule sorted_unique [where cmp = "\<lambda>a b. fgt (confidence a) (confidence b)"])
  show "sorted_wrt (\<lambda>a b. fgt (confidence a) (confidence b)) [record_1, record_2, record_3]"
    by (simp add: record_1_def record_2_def record_3_def box_def fgt_def)
  show "mset (std_sort P (\<lambda>a b. fgt (confidence a) (confidence b)) (kept_records P buf)) =
        mset [record_1, record_2, record_3]"
    using sorted_kept(1) [OF assms(1), of buf] assms(2) by simp
  show "sorted_wrt (\<lambda>a b. \<not> fgt (confidence b) (confidence a))
         (std_sort P (\<lambda>a b. fgt (confidence a) (confidence b)) (kept_records P buf))"
    by (rule sorted_kept(2) [OF assms(1)])
qed

lemma example_greedy: "greedy_nms [record_1, record_2, record_3] = [record_1, record_3]"
  by (simp add: suppresses_def iou_1_2 fgt_def m_nms_threshold_def)
     (simp add: record_1_def record_2_def record_3_def box_def)

lemma example_parse_any:
  assumes "std_sort_contract (std_sort P)"
    and "decoded_records P buf = [record_1, record_2, record_3]"
  shows "parseDetections P buf = [record_1, record_3]"
proof -
  have "kept_records P buf = [record_1, record_2, record_3]"
    using assms(2)
    by (simp add: kept_records_def record_1_def record_2_def record_3_def box_def fge_def
        m_confidence_threshold_def)
  then have "std_sort P (\<lambda>a b. fgt (confidence a) (confidence b)) (kept_records P buf) =
             [record_1, record_2, record_3]"
    by (rule example_sorted [OF assms(1)])
  then show ?thesis
    unfolding parseDetections_greedy by (simp only: example_greedy)
qed

section \<open>The specification's example\<close>

text \<open>
  Claim C8.  On every raw buffer that decodes to the three records
  \<open>(0,0,10,10,0.9,0)\<close>, \<open>(1,1,9,9,0.8,0)\<close>, \<open>(50,50,60,60,0.7,1)\<close> (the
  confidences being the binary32 values of these literals), with the thresholds
  0.5 and 0.45 of the code and any \<^verbatim>\<open>std::sort\<close> that meets its contract, the
  post-processing returns the first and the third record, in that order.  The
  second is suppressed by the first: they have the same class and their IoU is
  0.64, which the code computes as the binary32 value \<open>0x3F23D70A\<close>, above the
  threshold.
\<close>

theorem example_postprocessing:
  assumes "std_sort_contract (std_sort P)"
    and "decoded_records P buf = [record_1, record_2, record_3]"
  shows "parseDetections P buf = [record_1, record_3] \<and>
         geometric_iou record_1 record_2 = Some (64 / 100) \<and>
         iou record_1 record_2 = Finite (10737418 / 16777216) \<and>
         fgt (iou record_1 record_2) m_nms_threshold \<and>
         suppresses record_1 record_2"
proof -
  have "fgt (iou record_1 record_2) m_nms_threshold"
    by (simp add: iou_1_2 fgt_def m_nms_threshold_def)
  moreover from this have "suppresses record_1 record_2"
    by (simp add: suppresses_def record_1_def record_2_def box_def)
  moreover have "geometric_iou record_1 record_2 = Some (64 / 100)"
    by (simp add: geometric_iou_def iou_real_def record_1_def record_2_def box_def)
  ultimately show ?thesis
    using example_parse_any [OF assms] iou_1_2 by simp
qed

theorem example_postprocessing_witness:
  "std_sort_contract (std_sort sim_platform) \<and>
   decoded_records sim_platform example_buffer = [record_1, record_2, record_3] \<and>
   parseDetections sim_platform example_buffer = [record_1, record_3]"
  using example_postprocessing [OF sim_contract example_decoded] sim_contract example_decoded
  by simp

section \<open>The session\<close>

lemma detect_Inr:
  "detect P s input_data input_size = (Inr ds, s') \<longleftrightarrow>
   (\<exists>buf. run_inference P s input_data input_size = (Inr buf, s') \<and> ds = parseDetections P buf)"
  by (auto simp: detect_def split: prod.splits sum.splits)

lemma detect_Inl:
  "detect P s input_data input_size = (Inl e, s') \<longleftrightarrow>
   run_inference P s input_data input_size = (Inl e, s')"
  by (auto simp: detect_def split: prod.splits sum.splits)

lemma device_write_same_length: "length written = length buffer \<Longrightarrow> device_write written buffer = written"
  by (simp add: device_write_def)

lemma sim_run_inference:
  "run_inference sim_platform (sim_session buf) [1, 2, 3, 4] 4 = (Inr buf, sim_session buf)"
  by (simp add: run_inference_def sim_platform_def sim_session_def device_write_same_length)

lemma sim_detect:
  "detect sim_platform (sim_session buf) [1, 2, 3, 4] 4 =
     (Inr (parseDetections sim_platform buf), sim_session buf)"
  by (simp add: detect_def sim_run_inference)

lemma example_parse: "parseDetections sim_platform example_buffer = [record_1, record_3]"
  by (rule example_parse_any [OF sim_contract example_decoded])

lemma upt2: "[0 ..< 2] = [0, 1 :: nat]"
  by (simp add: upt_conv_Cons numeral_2_eq_2)

lemma example_decoded_2: "decoded_records P example_buffer_2 = [record_1, record_low, record_4]"
  by (simp add: decoded_records_def example_buffer_2_def upt3)
     (simp add: read_detection_def load_float_def  float_of_bits_def Let_def
      record_1_def record_low_def record_4_def box_def static_cast_int_def)

lemma example_decoded_3: "decoded_records P example_buffer_3 = [record_1, record_5]"
  by (simp add: decoded_records_def example_buffer_3_def upt2)
     (simp add: read_detection_def load_float_def  float_of_bits_def Let_def
      record_1_def record_5_def box_def static_cast_int_def)

lemma example_parse_2: "parseDetections sim_platform example_buffer_2 = [record_1, record_4]"
proof -
  have "kept_records sim_platform example_buffer_2 = [record_1, record_4]"
    by (simp add: kept_records_def example_decoded_2)
       (simp add: record_1_def record_low_def record_4_def box_def fge_def m_confidence_threshold_def)
  moreover have "insertion_sort (\<lambda>a b. fgt (confidence a) (confidence b)) [record_1, record_4] =
                 [record_1, record_4]"
    by (simp add: record_1_def record_4_def box_def fgt_def)
  moreover have "\<not> suppresses record_1 record_4"
    by (simp add: suppresses_def iou_def record_1_def record_4_def box_def fmax_def fmin_def fsub_def
        fgt_def Let_def m_nms_threshold_def round_f32_eval)
  ultimately show ?thesis
    by (simp add: parseDetections_greedy sim_platform_def)
qed

lemma example_parse_3: "parseDetections sim_platform example_buffer_3 = [record_1, record_5]"
proof -
  have "kept_records sim_platform example_buffer_3 = [record_1, record_5]"
    by (simp add: kept_records_def example_decoded_3)
       (simp add: record_1_def record_5_def box_def fge_def m_confidence_threshold_def)
  moreover have "insertion_sort (\<lambda>a b. fgt (confidence a) (confidence b)) [record_1, record_5] =
                 [record_1, record_5]"
    by (simp add: record_1_def record_5_def box_def fgt_def)
  moreover have "\<not> suppresses record_1 record_5"
    by (simp add: suppresses_def record_1_def record_5_def box_def)
  ultimately show ?thesis
    by (simp add: parseDetections_greedy sim_platform_def)
qed

lemma iou_1_5: "iou record_1 record_5 = Finite 1"
  by (simp add: iou_def record_1_def record_5_def box_def fmax_def fmin_def fsub_def fgt_def Let_def
      round_f32_eval)

lemma fle_Finite_mono: "fle a (Finite t) \<Longrightarrow> t \<le> u \<Longrightarrow> fle a (Finite u)"
  by (cases a) (auto simp: fle_def fge_def)

section \<open>Claims about the suppressor and the decoder\<close>

lemma round_f32_0: "round_f32 0 = Finite 0"
  using round_f32_int [of 0] by simp

lemma pixel_iou_rounded_geometric:
  assumes "pixel_box a" "pixel_box b"
  shows "\<exists>q. geometric_iou a b = Some q \<and> iou a b = round_f32 q"
proof -
  obtain a0 a1 a2 a3 :: int where
    a: "x_min a = Finite (of_int a0)" "y_min a = Finite (of_int a1)"
       "x_max a = Finite (of_int a2)" "y_max a = Finite (of_int a3)"
    and abd: "\<bar>a0\<bar> \<le> 1024" "\<bar>a1\<bar> \<le> 1024" "\<bar>a2\<bar> \<le> 1024" "\<bar>a3\<bar> \<le> 1024"
    using assms(1) unfolding pixel_box_def by (metis pixel_int)
  obtain b0 b1 b2 b3 :: int where
    b: "x_min b = Finite (of_int b0)" "y_min b = Finite (of_int b1)"
       "x_max b = Finite (of_int b2)" "y_max b = Finite (of_int b3)"
    and bbd: "\<bar>b0\<bar> \<le> 1024" "\<bar>b1\<bar> \<le> 1024" "\<bar>b2\<bar> \<le> 1024" "\<bar>b3\<bar> \<le> 1024"
    using assms(2) unfolding pixel_box_def by (metis pixel_int)
  define I where "I = max 0 (min a2 b2 - max a0 b0) * max 0 (min a3 b3 - max a1 b1)"
  define U where "U = (a2 - a0) * (a3 - a1) + (b2 - b0) * (b3 - b1) - I"
  have "iou a b = (if 0 < U then round_f32 (of_int I / of_int U) else Finite 0)"
    by (rule iou_int_corners(1) [OF a b abd bbd I_def U_def])
  moreover have "geometric_iou a b = Some (if U \<le> 0 then 0 else of_int I / of_int U)"
    by (rule geometric_iou_int_corners [OF a b I_def U_def])
  ultimately show ?thesis
    by (auto simp: round_f32_0 not_less)
qed

lemma example_decoded_4: "decoded_records P example_buffer_4 = [record_6, record_7]"
  by (simp add: decoded_records_def example_buffer_4_def upt2)
     (simp add: read_detection_def load_float_def  float_of_bits_def Let_def
      record_6_def record_7_def box_def static_cast_int_def)

lemma iou_6_7: "iou record_6 record_7 = Finite (15099494 / 33554432)"
  by (simp add: iou_def record_6_def record_7_def box_def fmax_def fmin_def fsub_def fgt_def Let_def
      round_f32_eval)

lemma example_parse_4: "parseDetections sim_platform example_buffer_4 = [record_6, record_7]"
proof -
  have "kept_records sim_platform example_buffer_4 = [record_6, record_7]"
    by (simp add: kept_records_def example_decoded_4)
       (simp add: record_6_def record_7_def box_def fge_def m_confidence_threshold_def)
  moreover have "insertion_sort (\<lambda>a b. fgt (confidence a) (confidence b)) [record_6, record_7] =
                 [record_6, record_7]"
    by (simp add: record_6_def record_7_def box_def fgt_def)
  moreover have "\<not> suppresses record_6 record_7"
    by (simp add: suppresses_def iou_6_7 fgt_def m_nms_threshold_def)
  ultimately show ?thesis
    by (simp add: parseDetections_greedy sim_platform_def)
qed

text \<open>
  Claim C1 fails as it is stated, with the IoU of the two rectangles.  On the
  fourth buffer \<^verbatim>\<open>detect\<close> returns both boxes, which have the same class: the
  area 17639999 of the first is rounded to 17640000, the quotient
  \<open>7938000 / 17640000\<close> is exactly 0.45 and rounds to 0.45f, which is not above
  the threshold; the IoU of the rectangles, \<open>7938000 / 17639999\<close>, is above
  0.45.
\<close>

theorem detect_nms_class_scoped_counterexample:
  "detect sim_platform (sim_session example_buffer_4) [1, 2, 3, 4] 4 =
     (Inr [record_6, record_7], sim_session example_buffer_4) \<and>
   class_id record_6 = class_id record_7 \<and>
   geometric_iou record_6 record_7 = Some (7938000 / 17639999) \<and>
   (45 / 100 :: real) < 7938000 / 17639999 \<and>
   iou record_6 record_7 = Finite (15099494 / 33554432) \<and>
   \<not> fgt (iou record_6 record_7) m_nms_threshold"
proof -
  have "geometric_iou record_6 record_7 = Some (7938000 / 17639999)"
    by (simp add: geometric_iou_def iou_real_def record_6_def record_7_def box_def)
  moreover have "class_id record_6 = class_id record_7"
    by (simp add: record_6_def record_7_def box_def)
  moreover have "\<not> fgt (iou record_6 record_7) m_nms_threshold"
    by (simp add: iou_6_7 fgt_def m_nms_threshold_def)
  ultimately show ?thesis
    by (simp add: sim_detect example_parse_4 iou_6_7)
qed

text \<open>
  Claim C1, amended.  Whatever buffer the device returns, any two detections at
  distinct positions of the sequence returned by a successful \<^verbatim>\<open>detect\<close> that
  have the same class have an IoU, as the code computes it in binary32, of at
  most the NMS threshold 0.45f, hence at most 0.45.  When both boxes have pixel
  corners (integers of magnitude at most 1024) the computed value is the
  geometric IoU rounded once, and the geometric IoU itself is at most 0.45.
\<close>

theorem detect_nms_class_scoped:
  assumes "detect P s input_data input_size = (Inr ds, s')"
    and "i < length ds" "j < length ds" "i \<noteq> j"
    and "class_id (ds ! i) = class_id (ds ! j)"
  shows "fle (iou (ds ! i) (ds ! j)) m_nms_threshold \<and>
         fle (iou (ds ! i) (ds ! j)) (Finite (45 / 100)) \<and>
         (pixel_box (ds ! i) \<and> pixel_box (ds ! j) \<longrightarrow>
            (\<exists>q. geometric_iou (ds ! i) (ds ! j) = Some q \<and> q \<le> 45 / 100 \<and>
                 iou (ds ! i) (ds ! j) = round_f32 q))"
proof -
  obtain buf where ds: "ds = parseDetections P buf"
    using assms(1) detect_Inr by blast
  have 1: "fle (iou (ds ! i) (ds ! j)) m_nms_threshold"
    using assms(2-5) unfolding ds by (rule parseDetections_nms)
  then have 2: "fle (iou (ds ! i) (ds ! j)) (Finite (45 / 100))"
    unfolding m_nms_threshold_def by (rule fle_Finite_mono) simp
  have n: "\<not> fgt (iou (ds ! i) (ds ! j)) m_nms_threshold"
    using 1 by (simp add: fle_def fge_def fgt_def)
  have 3: "\<exists>q. geometric_iou (ds ! i) (ds ! j) = Some q \<and> q \<le> 45 / 100 \<and>
               iou (ds ! i) (ds ! j) = round_f32 q"
    if p: "pixel_box (ds ! i)" "pixel_box (ds ! j)"
    using pixel_kept_geometric [OF p n] pixel_iou_rounded_geometric [OF p] by auto
  from 1 2 3 show ?thesis by blast
qed

theorem detect_nms_class_scoped_witness:
  "detect sim_platform (sim_session example_buffer_2) [1, 2, 3, 4] 4 =
     (Inr [record_1, record_4], sim_session example_buffer_2) \<and>
   class_id record_1 = class_id record_4 \<and>
   pixel_box record_1 \<and> pixel_box record_4 \<and>
   fle (iou record_1 record_4) m_nms_threshold \<and>
   fle (iou record_4 record_1) m_nms_threshold \<and>
   (\<exists>q. geometric_iou record_1 record_4 = Some q \<and> q \<le> 45 / 100 \<and>
        iou record_1 record_4 = round_f32 q)"
proof -
  have d: "detect sim_platform (sim_session example_buffer_2) [1, 2, 3, 4] 4 =
     (Inr [record_1, record_4], sim_session example_buffer_2)"
    by (simp add: sim_detect example_parse_2)
  have c: "class_id record_1 = class_id record_4"
    by (simp add: record_1_def record_4_def box_def)
  have p: "pixel_box record_1" "pixel_box record_4"
    by (simp_all add: pixel_box_def record_1_def record_4_def box_def)
  have "fle (iou ([record_1, record_4] ! 0) ([record_1, record_4] ! 1)) m_nms_threshold \<and>
        (\<exists>q. geometric_iou ([record_1, record_4] ! 0) ([record_1, record_4] ! 1) = Some q \<and>
             q \<le> 45 / 100 \<and>
             iou ([record_1, record_4] ! 0) ([record_1, record_4] ! 1) = round_f32 q)"
    using detect_nms_class_scoped [OF d, of 0 1] c p by simp
  moreover have "fle (iou ([record_1, record_4] ! 1) ([record_1, record_4] ! 0)) m_nms_threshold"
    using detect_nms_class_scoped [OF d, of 1 0] c by simp
  ultimately show ?thesis using d c p by simp
qed

text \<open>
  Claim C2.  Every detection returned by a successful \<^verbatim>\<open>detect\<close> has a
  confidence of at least the confidence threshold 0.5, and no record decoded
  from the output buffer with a confidence below 0.5 is in the result.
\<close>

theorem detect_confidence_filter:
  assumes "std_sort_contract (std_sort P)"
    and "detect P s input_data input_size = (Inr ds, s')"
  shows "(\<forall>d\<in>set ds. fge (confidence d) m_confidence_threshold \<and>
                      fge (confidence d) (Finite (1 / 2))) \<and>
         (\<forall>buf r. run_inference P s input_data input_size = (Inr buf, s') \<longrightarrow>
                  r \<in> set (decoded_records P buf) \<longrightarrow>
                  flt (confidence r) m_confidence_threshold \<longrightarrow> r \<notin> set ds)"
proof -
  obtain buf where ds: "ds = parseDetections P buf"
    using assms(2) detect_Inr by blast
  have 1: "\<forall>d\<in>set ds. fge (confidence d) m_confidence_threshold"
    unfolding ds using parseDetections_conf [OF assms(1)] by blast
  have "\<not> fge a b" if "flt a b" for a b
    using that by (simp add: fge_def)
  with 1 show ?thesis
    by (auto simp: m_confidence_threshold_def)
qed

theorem detect_confidence_filter_witness:
  "std_sort_contract (std_sort sim_platform) \<and>
   detect sim_platform (sim_session example_buffer_2) [1, 2, 3, 4] 4 =
     (Inr [record_1, record_4], sim_session example_buffer_2) \<and>
   fge (confidence record_1) m_confidence_threshold \<and>
   fge (confidence record_4) m_confidence_threshold \<and>
   run_inference sim_platform (sim_session example_buffer_2) [1, 2, 3, 4] 4 =
     (Inr example_buffer_2, sim_session example_buffer_2) \<and>
   record_low \<in> set (decoded_records sim_platform example_buffer_2) \<and>
   flt (confidence record_low) m_confidence_threshold \<and>
   record_low \<notin> set [record_1, record_4]"
proof -
  have d: "detect sim_platform (sim_session example_buffer_2) [1, 2, 3, 4] 4 =
     (Inr [record_1, record_4], sim_session example_buffer_2)"
    by (simp add: sim_detect example_parse_2)
  have l: "flt (confidence record_low) m_confidence_threshold"
    by (simp add: record_low_def box_def m_confidence_threshold_def)
  have m: "record_low \<in> set (decoded_records sim_platform example_buffer_2)"
    by (simp add: example_decoded_2)
  show ?thesis
    using detect_confidence_filter [OF sim_contract d] sim_contract d l m sim_run_inference
    by simp
qed

lemma count_people_eq:
  "count_people ds c =
     c + int (length (filter (\<lambda>d. class_id d = 0 \<and> fge (confidence d) m_confidence_threshold) ds))"
  by (induction ds arbitrary: c) auto

lemma to_string_4: "to_string 4 = ''4''"
  by (simp add: to_string.simps)

lemma to_string_5: "to_string 5 = ''5''"
  by (simp add: to_string.simps)

section \<open>Claims about the session\<close>

text \<open>
  Claim C3.  When the length passed to \<^verbatim>\<open>detect\<close> differs from the session's
  \<open>frame_size\<close>, the call throws the input-size error and returns no
  detections, and the session is exactly what it was: the equation holds
  whatever the HailoRT calls of the platform would do, so none of them has been
  made, and the session can be used as before.
\<close>

theorem detect_size_gate:
  assumes "input_size \<noteq> frame_size (m_input_info s)"
  shows "detect P s input_data input_size =
           (Inl (runtime_error (''Input size mismatch: expected '' @
                   to_string (frame_size (m_input_info s)) @ '', got '' @ to_string input_size)),
            s)"
  using assms by (simp add: detect_def run_inference_def)

theorem detect_size_gate_witness:
  "(5 :: nat) \<noteq> frame_size (m_input_info (sim_session example_buffer)) \<and>
   detect sim_platform (sim_session example_buffer) [1, 2, 3, 4, 5] 5 =
     (Inl (runtime_error ''Input size mismatch: expected 4, got 5''), sim_session example_buffer) \<and>
   detect sim_platform (sim_session example_buffer) [1, 2, 3, 4] 4 =
     (Inr [record_1, record_3], sim_session example_buffer)"
proof -
  have n: "(5 :: nat) \<noteq> frame_size (m_input_info (sim_session example_buffer))"
    by (simp add: sim_session_def)
  have "frame_size (m_input_info (sim_session example_buffer)) = 4"
    by (simp add: sim_session_def)
  then show ?thesis
    using detect_size_gate [OF n, of sim_platform "[1, 2, 3, 4, 5]"] n
    by (simp add: to_string_4 to_string_5 sim_detect example_parse)
qed

text \<open>
  Claim C4.  When \<^verbatim>\<open>detect\<close> succeeds on an input, \<^verbatim>\<open>detectPeople\<close> on the
  same input returns the number of detections of that result whose class is 0:
  the comparison of the confidence with the threshold in the counting loop is
  true of every detection \<^verbatim>\<open>detect\<close> returns.
\<close>

theorem detectPeople_counts_class_0:
  assumes "std_sort_contract (std_sort P)"
    and "detect P s input_data input_size = (Inr ds, s')"
  shows "detectPeople P s input_data input_size =
           (Inr (int (length (filter (\<lambda>d. class_id d = 0) ds))), s')"
proof -
  obtain buf where ds: "ds = parseDetections P buf"
    using assms(2) detect_Inr by blast
  have "\<forall>d\<in>set ds. fge (confidence d) m_confidence_threshold"
    unfolding ds using parseDetections_conf [OF assms(1)] by blast
  then have "filter (\<lambda>d. class_id d = 0 \<and> fge (confidence d) m_confidence_threshold) ds =
             filter (\<lambda>d. class_id d = 0) ds"
    by (intro filter_cong) auto
  then show ?thesis
    using assms(2) by (simp add: detectPeople_def count_people_eq)
qed

theorem detectPeople_counts_class_0_witness:
  "std_sort_contract (std_sort sim_platform) \<and>
   detect sim_platform (sim_session example_buffer) [1, 2, 3, 4] 4 =
     (Inr [record_1, record_3], sim_session example_buffer) \<and>
   detectPeople sim_platform (sim_session example_buffer) [1, 2, 3, 4] 4 =
     (Inr 1, sim_session example_buffer)"
proof -
  have d: "detect sim_platform (sim_session example_buffer) [1, 2, 3, 4] 4 =
     (Inr [record_1, record_3], sim_session example_buffer)"
    by (simp add: sim_detect example_parse)
  show ?thesis
    using detectPeople_counts_class_0 [OF sim_contract d] sim_contract d
    by (simp add: record_1_def record_3_def box_def)
qed

text \<open>
  Claim C5.  The sequence returned by a successful \<^verbatim>\<open>detect\<close> is ordered by
  non-increasing confidence; it is the greedy emission order over the sorted
  list of the kept records; and the post-processing is a function of the decoded
  records: two buffers with the same decoded records give the same sequence.
\<close>

theorem detect_confidence_descending:
  assumes "std_sort_contract (std_sort P)"
    and "detect P s input_data input_size = (Inr ds, s')"
  shows "sorted_wrt (\<lambda>a b. fge (confidence a) (confidence b)) ds \<and>
         (\<exists>buf. run_inference P s input_data input_size = (Inr buf, s') \<and>
            ds = greedy_nms (std_sort P (\<lambda>a b. fgt (confidence a) (confidence b))
                    (kept_records P buf))) \<and>
         (\<forall>buf buf'. decoded_records P buf = decoded_records P buf' \<longrightarrow>
            parseDetections P buf = parseDetections P buf')"
proof -
  obtain buf where buf: "run_inference P s input_data input_size = (Inr buf, s')"
    and ds: "ds = parseDetections P buf"
    using assms(2) detect_Inr by blast
  have "sorted_wrt (\<lambda>a b. fge (confidence a) (confidence b)) ds"
    unfolding ds by (rule parseDetections_sorted [OF assms(1)])
  moreover have "ds = greedy_nms (std_sort P (\<lambda>a b. fgt (confidence a) (confidence b))
                    (kept_records P buf))"
    unfolding ds by (rule parseDetections_greedy)
  moreover have "parseDetections P b1 = parseDetections P b2"
    if "decoded_records P b1 = decoded_records P b2" for b1 b2
    using that by (simp add: parseDetections_greedy kept_records_def)
  ultimately show ?thesis using buf by blast
qed

theorem detect_confidence_descending_witness:
  "std_sort_contract (std_sort sim_platform) \<and>
   detect sim_platform (sim_session example_buffer) [1, 2, 3, 4] 4 =
     (Inr [record_1, record_3], sim_session example_buffer) \<and>
   sorted_wrt (\<lambda>a b. fge (confidence a) (confidence b)) [record_1, record_3] \<and>
   fge (confidence record_1) (confidence record_3)"
proof -
  have d: "detect sim_platform (sim_session example_buffer) [1, 2, 3, 4] 4 =
     (Inr [record_1, record_3], sim_session example_buffer)"
    by (simp add: sim_detect example_parse)
  show ?thesis
    using detect_confidence_descending [OF sim_contract d] sim_contract d
    by simp
qed

lemma mset_pair:
  assumes "mset xs = mset [a, b]"
  shows "xs = [a, b] \<or> xs = [b, a]"
proof -
  have "length xs = 2" using assms by (metis length_Cons list.size(3) mset_eq_length numeral_2_eq_2)
  then obtain x y where xs: "xs = [x, y]"
    by (metis (no_types, opaque_lifting) Suc_length_conv length_0_conv numeral_2_eq_2)
  with assms have "{#x, y#} = {#a, b#}" by simp
  then have "(x = a \<and> y = b) \<or> (x = b \<and> y = a)"
    by (auto simp: add_eq_conv_ex)
  with xs show ?thesis by auto
qed

lemma greedy_pair: "\<not> suppresses a b \<Longrightarrow> greedy_nms [a, b] = [a, b]"
  by simp

text \<open>
  Claim C7.  The suppression never acts across classes: when the output buffer
  decodes to exactly two records, both of confidence at least 0.5 and of
  different classes, \<^verbatim>\<open>detect\<close> returns both, whatever their IoU.
\<close>

theorem detect_cross_class_pass_through:
  assumes "std_sort_contract (std_sort P)"
    and "run_inference P s input_data input_size = (Inr buf, s')"
    and "decoded_records P buf = [a, b]"
    and "fge (confidence a) m_confidence_threshold"
    and "fge (confidence b) m_confidence_threshold"
    and "class_id a \<noteq> class_id b"
  shows "\<exists>ds. detect P s input_data input_size = (Inr ds, s') \<and>
              a \<in> set ds \<and> b \<in> set ds \<and> length ds = 2"
proof -
  let ?srt = "std_sort P (\<lambda>a b. fgt (confidence a) (confidence b)) (kept_records P buf)"
  have k: "kept_records P buf = [a, b]"
    using assms(3-5) by (simp add: kept_records_def)
  then have "mset ?srt = mset [a, b]"
    using sorted_kept(1) [OF assms(1), of buf] by simp
  then have "?srt = [a, b] \<or> ?srt = [b, a]"
    by (rule mset_pair)
  moreover have "\<not> suppresses a b" "\<not> suppresses b a"
    using assms(6) by (auto simp: suppresses_def)
  ultimately have "parseDetections P buf = [a, b] \<or> parseDetections P buf = [b, a]"
    unfolding parseDetections_greedy by (metis greedy_pair)
  moreover have "detect P s input_data input_size = (Inr (parseDetections P buf), s')"
    using assms(2) by (simp add: detect_def)
  ultimately show ?thesis by auto
qed

theorem detect_cross_class_pass_through_witness:
  "std_sort_contract (std_sort sim_platform) \<and>
   run_inference sim_platform (sim_session example_buffer_3) [1, 2, 3, 4] 4 =
     (Inr example_buffer_3, sim_session example_buffer_3) \<and>
   decoded_records sim_platform example_buffer_3 = [record_1, record_5] \<and>
   fge (confidence record_1) m_confidence_threshold \<and>
   fge (confidence record_5) m_confidence_threshold \<and>
   class_id record_1 \<noteq> class_id record_5 \<and>
   iou record_1 record_5 = Finite 1 \<and>
   (\<exists>ds. detect sim_platform (sim_session example_buffer_3) [1, 2, 3, 4] 4 =
            (Inr ds, sim_session example_buffer_3) \<and>
          record_1 \<in> set ds \<and> record_5 \<in> set ds \<and> length ds = 2)"
proof -
  have c1: "fge (confidence record_1) m_confidence_threshold"
    by (simp add: record_1_def box_def fge_def m_confidence_threshold_def)
  have c5: "fge (confidence record_5) m_confidence_threshold"
    by (simp add: record_5_def box_def fge_def m_confidence_threshold_def)
  have ne: "class_id record_1 \<noteq> class_id record_5"
    by (simp add: record_1_def record_5_def box_def)
  show ?thesis
    using detect_cross_class_pass_through
            [OF sim_contract sim_run_inference example_decoded_3 c1 c5 ne]
          sim_contract sim_run_inference example_decoded_3 c1 c5 ne iou_1_5
    by simp
qed

section \<open>Claims about the boundary\<close>

text \<open>
  On a live engine \<^verbatim>\<open>hailo_get_input_info\<close> copies the four fields and changes
  nothing; \<^verbatim>\<open>hailo_destroy\<close> removes the engine, and on a null handle does
  nothing at all.
\<close>

lemma hailo_get_input_info_live:
  "h \<noteq> 0 \<Longrightarrow> heap w h = Some engine \<Longrightarrow>
   hailo_get_input_info w h =
     Some (\<lparr>c_width = width (m_input_info engine), c_height = height (m_input_info engine),
            c_channels = channels (m_input_info engine),
            c_frame_size = frame_size (m_input_info engine)\<rparr>, w)"
  by (simp add: hailo_get_input_info_def getInputInfo_def Let_def)

lemma hailo_destroy_live:
  "h \<noteq> 0 \<Longrightarrow> heap w h = Some engine \<Longrightarrow>
   hailo_destroy w h = Some (w\<lparr>heap := (heap w)(h := None)\<rparr>)"
  by (simp add: hailo_destroy_def)

lemma hailo_destroy_null: "hailo_destroy w 0 = Some w"
  by (simp add: hailo_destroy_def)

lemma to_c_update:
  "r\<lparr>c_x_min := x_min det, c_y_min := y_min det, c_x_max := x_max det, c_y_max := y_max det,
     c_confidence := confidence det, c_class_id := class_id det\<rparr> = to_c det"
  by (simp add: to_c_def)

lemma copy_loop_eq:
  "0 \<le> c \<Longrightarrow> nat c + min (length ds) (nat (k - c)) \<le> length out \<Longrightarrow>
   copy_loop ds c k out =
     Some (c + int (min (length ds) (nat (k - c))),
           take (nat c) out @ map to_c (take (nat (k - c)) ds) @
           drop (nat c + min (length ds) (nat (k - c))) out)"
proof (induction ds arbitrary: c out)
  case Nil
  then show ?case by simp
next
  case (Cons d ds)
  show ?case
  proof (cases "k \<le> c")
    case True
    then show ?thesis by simp
  next
    case False
    then have kc: "nat (k - c) = Suc (nat (k - (c + 1)))" by simp
    have inb: "nat c < length out"
      using Cons.prems False by simp
    let ?out = "out[nat c := to_c d]"
    have pre: "nat (c + 1) + min (length ds) (nat (k - (c + 1))) \<le> length ?out"
      using Cons.prems False by (simp add: kc nat_add_distrib)
    have c1: "nat (c + 1) = Suc (nat c)" using Cons.prems(1) by simp
    have ih: "copy_loop ds (c + 1) k ?out =
       Some (c + 1 + int (min (length ds) (nat (k - (c + 1)))),
             take (nat (c + 1)) ?out @ map to_c (take (nat (k - (c + 1))) ds) @
             drop (nat (c + 1) + min (length ds) (nat (k - (c + 1)))) ?out)"
      using Cons.IH [of "c + 1" ?out] Cons.prems(1) pre by simp
    have t: "take (nat (c + 1)) ?out = take (nat c) out @ [to_c d]"
      using inb by (simp add: c1 take_Suc_conv_app_nth)
    have dr: "drop (nat (c + 1) + m) ?out = drop (nat (c + 1) + m) out" for m
      by (simp add: c1)
    have inb': "\<not> int (length out) \<le> c"
      using inb Cons.prems(1) by linarith
    have step: "copy_loop (d # ds) c k out = copy_loop ds (c + 1) k ?out"
      using False Cons.prems(1) inb' by (simp add: to_c_update)
    show ?thesis
      unfolding step ih t dr by (simp add: kc c1)
  qed
qed

lemma copy_loop_from_0:
  assumes "min (length ds) (nat k) \<le> length out"
  shows "copy_loop ds 0 k out =
           Some (int (min (length ds) (nat k)),
                 map to_c (take (nat k) ds) @ drop (min (length ds) (nat k)) out)"
  using copy_loop_eq [of 0 ds k out] assms by simp

lemma copy_loop_no_capacity: "k \<le> 0 \<Longrightarrow> copy_loop ds 0 k out = Some (0, out)"
  by (cases ds) auto

lemma sim_heap: "heap sim_process 1 = Some (sim_session example_buffer)"
  by (simp add: sim_process_def)

lemma sim_detect_example:
  "detect sim_platform (sim_session example_buffer) [1, 2, 3, 4] 4 =
     (Inr [record_1, record_3], sim_session example_buffer)"
  by (simp add: sim_detect example_parse)

text \<open>
  Claim C6.  A boundary \<^verbatim>\<open>hailo_detect\<close> on a live engine whose \<^verbatim>\<open>detect\<close>
  succeeds with \<open>m\<close> survivors, called with a capacity \<open>k \<ge> 0\<close> and an array
  that has room for what is written, returns \<open>min m k\<close>; the array then holds
  the first \<open>min m k\<close> survivors, in their order of non-increasing confidence,
  before its old elements from \<open>min m k\<close> on; the survivors beyond \<open>k\<close> are
  dropped and the thread's error message is left as it was.
\<close>

theorem hailo_detect_truncates:
  assumes "std_sort_contract (std_sort P)"
    and "h \<noteq> 0" "heap w h = Some engine"
    and "detect P engine input_data input_size = (Inr ds, engine')"
    and "0 \<le> k" "min (length ds) (nat k) \<le> length out"
  shows "hailo_detect P w h input_data input_size out k =
           Some (min (int (length ds)) k,
                 map to_c (take (min (length ds) (nat k)) ds) @
                   drop (min (length ds) (nat k)) out,
                 w\<lparr>heap := (heap w)(h \<mapsto> engine')\<rparr>) \<and>
         sorted_wrt (\<lambda>a b. fge (confidence a) (confidence b)) (take (min (length ds) (nat k)) ds) \<and>
         g_last_error (w\<lparr>heap := (heap w)(h \<mapsto> engine')\<rparr>) = g_last_error w"
proof -
  obtain buf where ds: "ds = parseDetections P buf"
    using assms(4) detect_Inr by blast
  have "sorted_wrt (\<lambda>a b. fge (confidence a) (confidence b)) ds"
    unfolding ds by (rule parseDetections_sorted [OF assms(1)])
  then have 1: "sorted_wrt (\<lambda>a b. fge (confidence a) (confidence b))
                  (take (min (length ds) (nat k)) ds)"
    by (rule sorted_wrt_take)
  have 2: "int (min (length ds) (nat k)) = min (int (length ds)) k"
    using assms(5) by simp
  have 3: "take (nat k) ds = take (min (length ds) (nat k)) ds"
    by (simp add: min_def)
  have "hailo_detect P w h input_data input_size out k =
           Some (int (min (length ds) (nat k)),
                 map to_c (take (nat k) ds) @ drop (min (length ds) (nat k)) out,
                 w\<lparr>heap := (heap w)(h \<mapsto> engine')\<rparr>)"
    using assms(2-4) by (simp add: hailo_detect_def copy_loop_from_0 [OF assms(6)])
  then show ?thesis
    using 1 unfolding 2 3 by simp
qed

theorem hailo_detect_truncates_witness:
  "std_sort_contract (std_sort sim_platform) \<and> (1 :: nat) \<noteq> 0 \<and>
   heap sim_process 1 = Some (sim_session example_buffer) \<and>
   detect sim_platform (sim_session example_buffer) [1, 2, 3, 4] 4 =
     (Inr [record_1, record_3], sim_session example_buffer) \<and>
   min (length [record_1, record_3]) (nat 1) \<le> length empty_array \<and>
   hailo_detect sim_platform sim_process 1 [1, 2, 3, 4] 4 empty_array 1 =
     Some (1, to_c record_1 # replicate 3 (to_c (box 0 0 0 0 0 0)),
           sim_process\<lparr>heap := (heap sim_process)(1 \<mapsto> sim_session example_buffer)\<rparr>)"
proof -
  have n: "(1 :: nat) \<noteq> 0" by simp
  have k: "(0 :: int) \<le> 1" by simp
  have r: "min (length [record_1, record_3]) (nat 1) \<le> length empty_array"
    by (simp add: empty_array_def)
  have e: "empty_array = replicate 4 (to_c (box 0 0 0 0 0 0))"
    by (simp add: empty_array_def)
  show ?thesis
    using hailo_detect_truncates [OF sim_contract n sim_heap sim_detect_example k r]
      sim_contract sim_heap sim_detect_example r
    by (simp add: e numeral_eq_Suc)
qed

text \<open>
  Claim C9.  With a null handle, \<^verbatim>\<open>hailo_get_input_info\<close> returns the all-zero
  struct, and \<^verbatim>\<open>hailo_detect_people\<close> and \<^verbatim>\<open>hailo_detect\<close> return \<open>-1\<close>; each
  records the message \<open>Invalid handle\<close> for the calling thread, and nothing else
  changes: the engines are what they were, whatever they are, and the caller's
  array is untouched.
\<close>

theorem null_handle_sentinels:
  "hailo_get_input_info w 0 =
     Some (\<lparr>c_width = 0, c_height = 0, c_channels = 0, c_frame_size = 0\<rparr>,
           w\<lparr>g_last_error := ''Invalid handle''\<rparr>) \<and>
   hailo_detect_people P w 0 input_data input_size =
     Some (- 1, w\<lparr>g_last_error := ''Invalid handle''\<rparr>) \<and>
   hailo_detect P w 0 input_data input_size out k =
     Some (- 1, out, w\<lparr>g_last_error := ''Invalid handle''\<rparr>) \<and>
   hailo_get_last_error (w\<lparr>g_last_error := ''Invalid handle''\<rparr>) = ''Invalid handle''"
  by (simp add: hailo_get_input_info_def hailo_detect_people_def hailo_detect_def set_error_def
      hailo_get_last_error_def)

theorem null_handle_sentinels_witness:
  "hailo_get_input_info sim_process 0 =
     Some (\<lparr>c_width = 0, c_height = 0, c_channels = 0, c_frame_size = 0\<rparr>,
           sim_process\<lparr>g_last_error := ''Invalid handle''\<rparr>) \<and>
   hailo_detect_people sim_platform sim_process 0 [1, 2, 3, 4] 4 =
     Some (- 1, sim_process\<lparr>g_last_error := ''Invalid handle''\<rparr>) \<and>
   hailo_detect sim_platform sim_process 0 [1, 2, 3, 4] 4 empty_array 4 =
     Some (- 1, empty_array, sim_process\<lparr>g_last_error := ''Invalid handle''\<rparr>) \<and>
   heap (sim_process\<lparr>g_last_error := ''Invalid handle''\<rparr>) 1 = Some (sim_session example_buffer)"
  using null_handle_sentinels [of sim_process sim_platform "[1, 2, 3, 4]" 4 empty_array 4]
  by (simp add: sim_process_def)

text \<open>
  Claim C10.  A boundary \<^verbatim>\<open>hailo_detect\<close> on a live engine whose \<^verbatim>\<open>detect\<close>
  succeeds, called with a capacity \<open>max_detections \<le> 0\<close>, writes nothing to the
  array and returns 0, not \<open>-1\<close>, and the thread's error message is left as it
  was.
\<close>

theorem hailo_detect_no_capacity:
  assumes "h \<noteq> 0" "heap w h = Some engine"
    and "detect P engine input_data input_size = (Inr ds, engine')"
    and "k \<le> 0"
  shows "hailo_detect P w h input_data input_size out k =
           Some (0, out, w\<lparr>heap := (heap w)(h \<mapsto> engine')\<rparr>) \<and>
         g_last_error (w\<lparr>heap := (heap w)(h \<mapsto> engine')\<rparr>) = g_last_error w"
  using assms by (simp add: hailo_detect_def copy_loop_no_capacity)

theorem hailo_detect_no_capacity_witness:
  "(1 :: nat) \<noteq> 0 \<and> heap sim_process 1 = Some (sim_session example_buffer) \<and>
   detect sim_platform (sim_session example_buffer) [1, 2, 3, 4] 4 =
     (Inr [record_1, record_3], sim_session example_buffer) \<and> (- 3 :: int) \<le> 0 \<and>
   hailo_detect sim_platform sim_process 1 [1, 2, 3, 4] 4 empty_array (- 3) =
     Some (0, empty_array,
           sim_process\<lparr>heap := (heap sim_process)(1 \<mapsto> sim_session example_buffer)\<rparr>) \<and>
   hailo_detect sim_platform sim_process 1 [1, 2, 3, 4] 4 empty_array 0 =
     Some (0, empty_array,
           sim_process\<lparr>heap := (heap sim_process)(1 \<mapsto> sim_session example_buffer)\<rparr>)"
proof -
  have n: "(1 :: nat) \<noteq> 0" by simp
  have k: "(- 3 :: int) \<le> 0" "(0 :: int) \<le> 0" by simp_all
  show ?thesis
    using hailo_detect_no_capacity [OF n sim_heap sim_detect_example k(1), of empty_array]
      hailo_detect_no_capacity [OF n sim_heap sim_detect_example k(2), of empty_array]
      sim_heap sim_detect_example
    by simp
qed

end
